theory Spec2Isabelle
  imports Main
begin

section \<open>Text\<close>

text \<open>
  A Python \<open>str\<close> is a sequence of Unicode code points.  It is modelled as a list of
  natural numbers, one per code point; \<open>ustr\<close> turns an ASCII literal into such a list.
\<close>

type_synonym pychar = nat
type_synonym pystr = "pychar list"

definition ustr :: "string \<Rightarrow> pystr" where
  "ustr s = map of_char s"

text \<open>\<open>sep.join(xs)\<close>.\<close>

fun py_join :: "pystr \<Rightarrow> pystr list \<Rightarrow> pystr" where
  "py_join sep [] = []"
| "py_join sep [x] = x"
| "py_join sep (x # y # ys) = x @ sep @ py_join sep (y # ys)"

text \<open>\<open>s.split(sep)\<close> for a separator of one character: the pieces between the
  separators, empty pieces included; the result is never the empty list.\<close>

fun py_split :: "pychar \<Rightarrow> pystr \<Rightarrow> pystr list" where
  "py_split sep [] = [[]]"
| "py_split sep (c # s) =
     (if c = sep then [] # py_split sep s
      else (case py_split sep s of
              [] \<Rightarrow> [[c]]
            | x # xs \<Rightarrow> (c # x) # xs))"

text \<open>\<open>str.isspace\<close> on one character: the code points Python's Unicode tables class
  as whitespace.\<close>

definition py_isspace :: "pychar \<Rightarrow> bool" where
  "py_isspace c =
     ((9 \<le> c \<and> c \<le> 13) \<or> (28 \<le> c \<and> c \<le> 32) \<or> c = 0x85 \<or> c = 0xA0 \<or> c = 0x1680
      \<or> (0x2000 \<le> c \<and> c \<le> 0x200A) \<or> c = 0x2028 \<or> c = 0x2029 \<or> c = 0x202F
      \<or> c = 0x205F \<or> c = 0x3000)"

text \<open>\<open>s.strip()\<close>.\<close>

definition py_strip :: "pystr \<Rightarrow> pystr" where
  "py_strip s = rev (dropWhile py_isspace (rev (dropWhile py_isspace s)))"

text \<open>\<open>s.replace(old, new)\<close> for an \<open>old\<close> of one character.\<close>

definition py_replace :: "pychar \<Rightarrow> pystr \<Rightarrow> pystr \<Rightarrow> pystr" where
  "py_replace old new s = concat (map (\<lambda>c. if c = old then new else [c]) s)"

section \<open>Exceptions\<close>

text \<open>
  The exceptions a run can end with.  \<open>NetworkError\<close> stands for whatever
  \<open>urllib\<close> raises and \<open>DeliveryError\<close> for whatever building the message and the SMTP
  session raise.  \<open>NotModelled\<close> is not a Python exception: the JSON reader below
  returns it for a document that holds a float, which this development does not model.
  \<open>RecursionError\<close> is what the functions of the reader return when their budget is
  used up, which does not happen in \<open>json_loads\<close>; the recursion limit of the Python
  interpreter is not modelled.
\<close>

datatype exn =
    NetworkError
  | JSONDecodeError
  | NotModelled
  | RecursionError
  | AttributeError
  | KeyError pystr
  | ValueError
  | TypeError
  | UnicodeEncodeError
  | DeliveryError

section \<open>JSON values, \<open>json.dumps\<close> and \<open>json.loads\<close>\<close>

text \<open>
  What \<open>json.loads\<close> returns: \<open>None\<close>, a \<open>bool\<close>, an \<open>int\<close>, a \<open>str\<close>, a \<open>list\<close>
  or a \<open>dict\<close> with \<open>str\<close> keys.  A \<open>dict\<close> keeps its keys in insertion order, so it
  is an association list; \<open>dict_setitem\<close> is \<open>d[k] = v\<close> (an existing key keeps its
  place) and \<open>dict_get\<close> is \<open>d.get(k)\<close>.
\<close>

datatype json =
    JNull
  | JBool bool
  | JInt int
  | JStr pystr
  | JList "json list"
  | JDict "(pystr \<times> json) list"

fun dict_setitem :: "(pystr \<times> json) list \<Rightarrow> pystr \<Rightarrow> json \<Rightarrow> (pystr \<times> json) list" where
  "dict_setitem [] k v = [(k, v)]"
| "dict_setitem ((k', v') # d) k v =
     (if k' = k then (k, v) # d else (k', v') # dict_setitem d k v)"

definition dict_get :: "(pystr \<times> json) list \<Rightarrow> pystr \<Rightarrow> json" where
  "dict_get d k = (case map_of d k of None \<Rightarrow> JNull | Some v \<Rightarrow> v)"

text \<open>Python's truth value of a JSON value (\<open>not x\<close> is its negation).\<close>

fun truthy :: "json \<Rightarrow> bool" where
  "truthy JNull = False"
| "truthy (JBool b) = b"
| "truthy (JInt i) = (i \<noteq> 0)"
| "truthy (JStr s) = (s \<noteq> [])"
| "truthy (JList xs) = (xs \<noteq> [])"
| "truthy (JDict d) = (d \<noteq> [])"

subsection \<open>\<open>json.dumps(v, indent=2, ensure_ascii=False)\<close>\<close>

text \<open>
  A string is written between double quotes; the quote, the backslash and the control
  characters below U+0020 are escaped, every other character is written as it is.
  Containers are written one item per line, indented by two spaces per level.
\<close>

definition hexdigit :: "nat \<Rightarrow> pychar" where
  "hexdigit d = (if d < 10 then 48 + d else 87 + d)"

definition escape_char :: "pychar \<Rightarrow> pystr" where
  "escape_char c =
     (if c = 34 then [92, 34]
      else if c = 92 then [92, 92]
      else if c = 8 then [92, 98]
      else if c = 12 then [92, 102]
      else if c = 10 then [92, 110]
      else if c = 13 then [92, 114]
      else if c = 9 then [92, 116]
      else if c < 32 then [92, 117, 48, 48, hexdigit (c div 16), hexdigit (c mod 16)]
      else [c])"

definition encode_basestring :: "pystr \<Rightarrow> pystr" where
  "encode_basestring s = [34] @ concat (map escape_char s) @ [34]"

fun decimal :: "nat \<Rightarrow> pystr" where
  "decimal n = (if n < 10 then [48 + n] else decimal (n div 10) @ [48 + n mod 10])"

definition int_repr :: "int \<Rightarrow> pystr" where
  "int_repr i = (if i < 0 then 45 # decimal (nat (- i)) else decimal (nat i))"

definition newline_indent :: "nat \<Rightarrow> pystr" where
  "newline_indent level = 10 # replicate (2 * level) 32"

fun encode :: "nat \<Rightarrow> json \<Rightarrow> pystr" where
  "encode level JNull = ustr ''null''"
| "encode level (JBool b) = (if b then ustr ''true'' else ustr ''false'')"
| "encode level (JInt i) = int_repr i"
| "encode level (JStr s) = encode_basestring s"
| "encode level (JList xs) =
     (if xs = [] then ustr ''[]''
      else [91] @ newline_indent (Suc level)
           @ py_join (44 # newline_indent (Suc level)) (map (encode (Suc level)) xs)
           @ newline_indent level @ [93])"
| "encode level (JDict d) =
     (if d = [] then ustr ''{}''
      else [123] @ newline_indent (Suc level)
           @ py_join (44 # newline_indent (Suc level))
               (map (\<lambda>kv. encode_basestring (fst kv) @ [58, 32] @ encode (Suc level) (snd kv)) d)
           @ newline_indent level @ [125])"

definition json_dumps :: "json \<Rightarrow> pystr" where
  "json_dumps v = encode 0 v"

subsection \<open>\<open>json.loads\<close>\<close>

text \<open>
  The reader follows CPython's scanner.  Every way a text can fail to be JSON raises the
  same exception, so the reader returns \<open>JSONDecodeError\<close> without a message.  The
  functions that read a value, the members of an object and the items of an array call
  each other; they take a budget that every call decreases.  A call uses up two units
  of it for a character of the text at most, and \<open>json_loads\<close> starts with more than
  twice the length of the text, so the budget is never used up
  (lemma \<open>json_loads_budget\<close> below).
\<close>

definition is_ws :: "pychar \<Rightarrow> bool" where
  "is_ws c = (c = 32 \<or> c = 9 \<or> c = 10 \<or> c = 13)"

definition skip_ws :: "pystr \<Rightarrow> pystr" where
  "skip_ws s = dropWhile is_ws s"

definition is_digit :: "pychar \<Rightarrow> bool" where
  "is_digit c = (48 \<le> c \<and> c \<le> 57)"

definition hexval :: "pychar \<Rightarrow> nat option" where
  "hexval c =
     (if 48 \<le> c \<and> c \<le> 57 then Some (c - 48)
      else if 97 \<le> c \<and> c \<le> 102 then Some (c - 87)
      else if 65 \<le> c \<and> c \<le> 70 then Some (c - 55)
      else None)"

fun hex4 :: "pystr \<Rightarrow> nat option" where
  "hex4 (a # b # c # d # r) =
     (case (hexval a, hexval b, hexval c, hexval d) of
        (Some x, Some y, Some z, Some w) \<Rightarrow> Some (((x * 16 + y) * 16 + z) * 16 + w)
      | _ \<Rightarrow> None)"
| "hex4 _ = None"

definition backslash :: "pychar \<Rightarrow> pychar option" where
  "backslash e =
     (if e = 34 then Some 34
      else if e = 92 then Some 92
      else if e = 47 then Some 47
      else if e = 98 then Some 8
      else if e = 102 then Some 12
      else if e = 110 then Some 10
      else if e = 114 then Some 13
      else if e = 116 then Some 9
      else None)"

definition is_high_surrogate :: "pychar \<Rightarrow> bool" where
  "is_high_surrogate c = (0xD800 \<le> c \<and> c \<le> 0xDBFF)"

definition is_low_surrogate :: "pychar \<Rightarrow> bool" where
  "is_low_surrogate c = (0xDC00 \<le> c \<and> c \<le> 0xDFFF)"

definition join_surrogates :: "pychar \<Rightarrow> pychar \<Rightarrow> pychar" where
  "join_surrogates hi lo = 0x10000 + (hi - 0xD800) * 0x400 + (lo - 0xDC00)"

definition unescape :: "pystr \<Rightarrow> (pychar \<times> nat) option" where
  "unescape s =
     (case s of
        [] \<Rightarrow> None
      | e # r \<Rightarrow>
          if e \<noteq> 117 then map_option (\<lambda>c. (c, 1)) (backslash e)
          else (case hex4 r of
                  None \<Rightarrow> None
                | Some c \<Rightarrow>
                    if \<not> is_high_surrogate c then Some (c, 5)
                    else (case drop 4 r of
                            a # b # r2 \<Rightarrow>
                              if a = 92 \<and> b = 117 then
                                (case hex4 r2 of
                                   None \<Rightarrow> None
                                 | Some c2 \<Rightarrow>
                                     if is_low_surrogate c2
                                     then Some (join_surrogates c c2, 11)
                                     else Some (c, 5))
                              else Some (c, 5)
                          | _ \<Rightarrow> Some (c, 5))))"

fun scanstring :: "pystr \<Rightarrow> (pystr \<times> pystr) option" where
  "scanstring [] = None"
| "scanstring (c # s) =
     (if c = 34 then Some ([], s)
      else if c = 92 then
        (case unescape s of
           None \<Rightarrow> None
         | Some (ch, n) \<Rightarrow>
             (case scanstring (drop n s) of
                None \<Rightarrow> None
              | Some (t, r) \<Rightarrow> Some (ch # t, r)))
      else if c < 32 then None
      else (case scanstring s of
              None \<Rightarrow> None
            | Some (t, r) \<Rightarrow> Some (c # t, r)))"

definition digits_value :: "pystr \<Rightarrow> nat" where
  "digits_value ds = foldl (\<lambda>a d. 10 * a + (d - 48)) 0 ds"

definition has_fraction :: "pystr \<Rightarrow> bool" where
  "has_fraction r = (case r of a # b # _ \<Rightarrow> a = 46 \<and> is_digit b | _ \<Rightarrow> False)"

definition has_exponent :: "pystr \<Rightarrow> bool" where
  "has_exponent r =
     (case r of
        a # b # r' \<Rightarrow>
          (a = 101 \<or> a = 69) \<and>
          (is_digit b \<or> ((b = 43 \<or> b = 45) \<and> (case r' of c # _ \<Rightarrow> is_digit c | [] \<Rightarrow> False)))
      | _ \<Rightarrow> False)"

definition match_number :: "pystr \<Rightarrow> exn + (json \<times> pystr)" where
  "match_number s =
     (let neg = (case s of c # _ \<Rightarrow> c = 45 | [] \<Rightarrow> False);
          s1 = (if neg then tl s else s)
      in case s1 of
           [] \<Rightarrow> Inl JSONDecodeError
         | d # r \<Rightarrow>
             if \<not> is_digit d then Inl JSONDecodeError
             else
               let ds = (if d = 48 then [d] else d # takeWhile is_digit r);
                   rest = (if d = 48 then r else dropWhile is_digit r)
               in if has_fraction rest \<or> has_exponent rest then Inl NotModelled
                  else Inr (JInt (if neg then - int (digits_value ds) else int (digits_value ds)), rest))"

fun scan_once :: "nat \<Rightarrow> pystr \<Rightarrow> exn + (json \<times> pystr)"
  and parse_object :: "nat \<Rightarrow> (pystr \<times> json) list \<Rightarrow> pystr \<Rightarrow> exn + (json \<times> pystr)"
  and parse_array :: "nat \<Rightarrow> json list \<Rightarrow> pystr \<Rightarrow> exn + (json \<times> pystr)"
where
  "scan_once 0 s = Inl RecursionError"
| "scan_once (Suc n) s =
     (case s of
        [] \<Rightarrow> Inl JSONDecodeError
      | c # r \<Rightarrow>
          if c = 34 then
            (case scanstring r of
               None \<Rightarrow> Inl JSONDecodeError
             | Some (t, r') \<Rightarrow> Inr (JStr t, r'))
          else if c = 123 then
            (case skip_ws r of
               [] \<Rightarrow> Inl JSONDecodeError
             | c' # r' \<Rightarrow> if c' = 125 then Inr (JDict [], r') else parse_object n [] (c' # r'))
          else if c = 91 then
            (case skip_ws r of
               [] \<Rightarrow> Inl JSONDecodeError
             | c' # r' \<Rightarrow> if c' = 93 then Inr (JList [], r') else parse_array n [] (c' # r'))
          else if take 4 s = ustr ''null'' then Inr (JNull, drop 4 s)
          else if take 4 s = ustr ''true'' then Inr (JBool True, drop 4 s)
          else if take 5 s = ustr ''false'' then Inr (JBool False, drop 5 s)
          else if take 3 s = ustr ''NaN'' \<or> take 8 s = ustr ''Infinity''
                  \<or> take 9 s = ustr ''-Infinity'' then Inl NotModelled
          else match_number s)"
| "parse_object 0 d s = Inl RecursionError"
| "parse_object (Suc n) d s =
     (case s of
        [] \<Rightarrow> Inl JSONDecodeError
      | q # r \<Rightarrow>
          if q \<noteq> 34 then Inl JSONDecodeError
          else (case scanstring r of
                  None \<Rightarrow> Inl JSONDecodeError
                | Some (key, r1) \<Rightarrow>
                    (case skip_ws r1 of
                       [] \<Rightarrow> Inl JSONDecodeError
                     | c # r2 \<Rightarrow>
                         if c \<noteq> 58 then Inl JSONDecodeError
                         else (case scan_once n (skip_ws r2) of
                                 Inl e \<Rightarrow> Inl e
                               | Inr (v, r3) \<Rightarrow>
                                   (case skip_ws r3 of
                                      [] \<Rightarrow> Inl JSONDecodeError
                                    | c' # r4 \<Rightarrow>
                                        if c' = 125 then Inr (JDict (dict_setitem d key v), r4)
                                        else if c' = 44
                                        then parse_object n (dict_setitem d key v) (skip_ws r4)
                                        else Inl JSONDecodeError)))))"
| "parse_array 0 xs s = Inl RecursionError"
| "parse_array (Suc n) xs s =
     (case scan_once n s of
        Inl e \<Rightarrow> Inl e
      | Inr (v, r) \<Rightarrow>
          (case skip_ws r of
             [] \<Rightarrow> Inl JSONDecodeError
           | c # r' \<Rightarrow>
               if c = 93 then Inr (JList (xs @ [v]), r')
               else if c = 44 then parse_array n (xs @ [v]) (skip_ws r')
               else Inl JSONDecodeError))"

definition json_loads :: "pystr \<Rightarrow> exn + json" where
  "json_loads s =
     (if take 1 s = [0xFEFF] then Inl JSONDecodeError
      else case scan_once (Suc (2 * length s)) (skip_ws s) of
             Inl e \<Rightarrow> Inl e
           | Inr (v, r) \<Rightarrow> if skip_ws r = [] then Inr v else Inl JSONDecodeError)"

section \<open>Availability classifier\<close>

text \<open>
  The two pattern lists of \<open>check_stock.py\<close>.  The non-ASCII letters are
  U+00E5 (a with ring), U+00E6 (ae) and U+00F8 (o with stroke).
\<close>

definition OUT_OF_STOCK_PATTERNS :: "pystr list" where
  "OUT_OF_STOCK_PATTERNS =
     [ustr ''Ikke p'' @ [0xE5] @ ustr '' lager'',
      ustr ''Udsolgt'']"

definition IN_STOCK_HINTS :: "pystr list" where
  "IN_STOCK_HINTS =
     [ustr ''P'' @ [0xE5] @ ustr '' lager'',
      ustr ''L'' @ [0xE6] @ ustr ''g i kurv'',
      ustr ''Tilf'' @ [0xF8] @ ustr ''j til kurv'']"

text \<open>
  \<open>re.search(pat, html, re.IGNORECASE)\<close>.  Every pattern of the script consists of
  letters and spaces only, so the regular expression is a sequence of literals and the
  search looks for a position of the text where each pattern character matches the text
  character under it.  Whether a pattern character matches a text character when case is
  ignored is decided by the case tables of the regular-expression engine; that relation
  is the parameter \<open>ci\<close> (pattern character first).
\<close>

type_synonym casetab = "pychar \<Rightarrow> pychar \<Rightarrow> bool"

fun match_here :: "casetab \<Rightarrow> pystr \<Rightarrow> pystr \<Rightarrow> bool" where
  "match_here ci [] t = True"
| "match_here ci (p # ps) [] = False"
| "match_here ci (p # ps) (c # t) = (ci p c \<and> match_here ci ps t)"

fun re_search :: "casetab \<Rightarrow> pystr \<Rightarrow> pystr \<Rightarrow> bool" where
  "re_search ci pat [] = match_here ci pat []"
| "re_search ci pat (c # t) = (match_here ci pat (c # t) \<or> re_search ci pat t)"

text \<open>The loop \<open>for pat in pats: if re.search(pat, html, re.IGNORECASE): return ...\<close>:
  does the loop reach its \<open>return\<close>?\<close>

primrec any_pattern :: "casetab \<Rightarrow> pystr list \<Rightarrow> pystr \<Rightarrow> bool" where
  "any_pattern ci [] html = False"
| "any_pattern ci (pat # pats) html =
     (if re_search ci pat html then True else any_pattern ci pats html)"

definition detect_available :: "casetab \<Rightarrow> pystr \<Rightarrow> bool" where
  "detect_available ci html =
     (if any_pattern ci OUT_OF_STOCK_PATTERNS html then False
      else if any_pattern ci IN_STOCK_HINTS html then True
      else False)"

text \<open>
  A case table for examples: letters of ASCII and Latin-1 match in either case, every
  other character matches itself only.
\<close>

definition latin1_lower :: "pychar \<Rightarrow> pychar" where
  "latin1_lower c =
     (if (65 \<le> c \<and> c \<le> 90) \<or> (192 \<le> c \<and> c \<le> 222 \<and> c \<noteq> 215) then c + 32 else c)"

definition latin1_ci :: casetab where
  "latin1_ci p c = (latin1_lower c = latin1_lower p)"

section \<open>Dates and times\<close>

text \<open>
  A \<open>datetime\<close> is naive or aware.  An aware one is identified by its instant, in
  microseconds of UTC; the difference of two aware values is the difference of their
  instants.  \<open>datetime.fromisoformat\<close>, \<open>isoformat\<close> and the other library functions
  the script calls are fields of the environment record below.
\<close>

datatype datetime = Naive int | Aware int

section \<open>The environment of a run\<close>

text \<open>
  A message as the script builds it, with the connection it is sent over: \<open>msg_to\<close> is the
  value that \<open>send_email\<close> assigns to the \<open>To\<close> header.
\<close>

record session =
  smtp_host :: pystr
  smtp_port :: int
  smtp_user :: pystr
  smtp_pass :: pystr
  msg_subject :: pystr
  msg_from :: pystr
  msg_to :: pystr
  msg_content :: pystr

text \<open>
  Everything a run reads from outside the script:
  \<^item> \<open>re_ci\<close>: the case table of the regular-expression engine;
  \<^item> \<open>fromisoformat\<close>: \<open>datetime.fromisoformat\<close>, which raises \<open>ValueError\<close> or returns
    a naive or an aware value;
  \<^item> \<open>isoformat\<close>: \<open>isoformat()\<close> of the aware UTC datetime at the given instant;
  \<^item> \<open>py_int\<close>: \<open>int(s)\<close> on a string;
  \<^item> \<open>http_get\<close>: the decoded body of the response to a GET of the URL, or the error;
  \<^item> \<open>environ\<close>: \<open>os.environ\<close>;
  \<^item> \<open>now\<close>: the clock as \<open>main\<close> reads it; \<open>now_restock\<close> and \<open>now_status\<close>: the
    clock as \<open>utc_now_iso\<close> reads it for the body of each of the two messages;
  \<^item> \<open>smtp_ok\<close>: whether building the message and the SMTP session (connect, STARTTLS,
    login, send) go through without an exception.
\<close>

record env =
  re_ci :: casetab
  fromisoformat :: "pystr \<Rightarrow> exn + datetime"
  isoformat :: "int \<Rightarrow> pystr"
  py_int :: "pystr \<Rightarrow> exn + int"
  http_get :: "pystr \<Rightarrow> exn + pystr"
  environ :: "pystr \<Rightarrow> pystr option"
  now :: int
  now_restock :: int
  now_status :: int
  smtp_ok :: "session \<Rightarrow> bool"

text \<open>
  What a run changes: the state file (\<open>None\<close> when it does not exist, else its text)
  and the messages delivered so far.
\<close>

record world =
  state_file :: "pystr option"
  outbox :: "session list"

section \<open>Fetcher\<close>

definition PRODUCT_URL :: pystr where
  "PRODUCT_URL = ustr ''https://maetpets.com/produkt/stop-madspil/''"

definition fetch_html :: "env \<Rightarrow> pystr \<Rightarrow> exn + pystr" where
  "fetch_html E url = http_get E url"

section \<open>State store\<close>

definition default_state :: json where
  "default_state =
     JDict [(ustr ''last_available'', JNull), (ustr ''last_status_email_utc'', JNull)]"

definition load_state :: "world \<Rightarrow> exn + json" where
  "load_state w =
     (case state_file w of
        Some content \<Rightarrow> json_loads content
      | None \<Rightarrow> Inr default_state)"

text \<open>
  \<open>write_text\<close> opens the file for writing, which empties it, and then encodes the
  text as UTF-8; a surrogate code point cannot be encoded.
\<close>

definition is_surrogate :: "pychar \<Rightarrow> bool" where
  "is_surrogate c = (0xD800 \<le> c \<and> c \<le> 0xDFFF)"

definition save_state :: "world \<Rightarrow> json \<Rightarrow> exn option \<times> world" where
  "save_state w state =
     (let content = json_dumps state @ [10]
      in if list_ex is_surrogate content
         then (Some UnicodeEncodeError, w\<lparr>state_file := Some []\<rparr>)
         else (None, w\<lparr>state_file := Some content\<rparr>))"

section \<open>The 12-hour rule\<close>

definition parse_iso :: "env \<Rightarrow> json \<Rightarrow> exn + datetime" where
  "parse_iso E dt =
     (case dt of
        JStr s \<Rightarrow> fromisoformat E (py_replace 90 (ustr ''+00:00'') s)
      | _ \<Rightarrow> Inl AttributeError)"

text \<open>
  \<open>(now - last).total_seconds() >= 12 * 3600\<close>: the difference is a whole number of
  microseconds and \<open>total_seconds\<close> is its quotient by \<open>10^6\<close> as a float.  The
  rounding is monotone and \<open>43200.0\<close> is exact, so the comparison is the one on
  microseconds.  Subtracting a naive value from the aware \<open>now\<close> raises \<open>TypeError\<close>.
\<close>

definition should_send_12h_status :: "env \<Rightarrow> json \<Rightarrow> int \<Rightarrow> exn + bool" where
  "should_send_12h_status E last_sent_iso now' =
     (if \<not> truthy last_sent_iso then Inr True
      else (case parse_iso E last_sent_iso of
              Inl e \<Rightarrow> Inl e
            | Inr last_dt \<Rightarrow>
                (case last_dt of
                   Naive t \<Rightarrow> Inl TypeError
                 | Aware t \<Rightarrow> Inr (12 * 3600 * 1000000 \<le> now' - t))))"

section \<open>Notifier\<close>

text \<open>\<open>[r.strip() for r in mail_to.split(",") if r.strip()]\<close>.\<close>

definition recipients :: "pystr \<Rightarrow> pystr list" where
  "recipients mail_to =
     map py_strip (filter (\<lambda>r. py_strip r \<noteq> []) (py_split 44 mail_to))"

definition send_email :: "env \<Rightarrow> world \<Rightarrow> pystr \<Rightarrow> pystr \<Rightarrow> exn option \<times> world" where
  "send_email E w subj body =
     (case environ E (ustr ''SMTP_HOST'') of
        None \<Rightarrow> (Some (KeyError (ustr ''SMTP_HOST'')), w)
      | Some host \<Rightarrow>
     (case py_int E (case environ E (ustr ''SMTP_PORT'') of
                       None \<Rightarrow> ustr ''587''
                     | Some p \<Rightarrow> p) of
        Inl e \<Rightarrow> (Some e, w)
      | Inr port \<Rightarrow>
     (case environ E (ustr ''SMTP_USERNAME'') of
        None \<Rightarrow> (Some (KeyError (ustr ''SMTP_USERNAME'')), w)
      | Some user \<Rightarrow>
     (case environ E (ustr ''SMTP_PASSWORD'') of
        None \<Rightarrow> (Some (KeyError (ustr ''SMTP_PASSWORD'')), w)
      | Some pass \<Rightarrow>
     (case environ E (ustr ''MAIL_FROM'') of
        None \<Rightarrow> (Some (KeyError (ustr ''MAIL_FROM'')), w)
      | Some mail_from \<Rightarrow>
     (case environ E (ustr ''MAIL_TO'') of
        None \<Rightarrow> (Some (KeyError (ustr ''MAIL_TO'')), w)
      | Some mail_to \<Rightarrow>
          let msg = \<lparr>smtp_host = host, smtp_port = port, smtp_user = user, smtp_pass = pass,
                     msg_subject = subj, msg_from = mail_from,
                     msg_to = py_join (ustr '', '') (recipients mail_to),
                     msg_content = body\<rparr>
          in if smtp_ok E msg then (None, w\<lparr>outbox := outbox w @ [msg]\<rparr>)
             else (Some DeliveryError, w)))))))"

subsection \<open>The envelope\<close>

text \<open>
  \<open>server.send_message(msg)\<close> is called without addresses, so \<open>smtplib\<close> sends to the
  addresses that \<open>email.utils.getaddresses\<close> reads out of the \<open>To\<close> header of the message
  (the script sets no \<open>Cc\<close> and no \<open>Bcc\<close> header).  That is library code; \<open>to_addrs\<close> gives
  its result for the header values made of mailboxes of the three forms below, separated
  by a comma and a space, and \<open>None\<close> for every other value but the empty one, for which the
  library gives one empty address:
  \<^item> a bare address \<open>local@domain\<close>, where both sides are runs of letters, digits, \<open>+\<close>,
    \<open>-\<close> and \<open>_\<close> separated by single dots;
  \<^item> \<open>name <local@domain>\<close>, where the name is made of letters and digits;
  \<^item> \<open>"text" <local@domain>\<close>, where the quoted text is made of letters, digits, spaces
    and commas.
  The address of a mailbox is its \<open>local@domain\<close> part.
\<close>

definition is_alnum :: "pychar \<Rightarrow> bool" where
  "is_alnum c = ((48 \<le> c \<and> c \<le> 57) \<or> (65 \<le> c \<and> c \<le> 90) \<or> (97 \<le> c \<and> c \<le> 122))"

definition is_atext :: "pychar \<Rightarrow> bool" where
  "is_atext c = (is_alnum c \<or> c = 43 \<or> c = 45 \<or> c = 95)"

definition dot_atom :: "pystr \<Rightarrow> bool" where
  "dot_atom s = list_all (\<lambda>p. p \<noteq> [] \<and> list_all is_atext p) (py_split 46 s)"

definition addr_spec :: "pystr \<Rightarrow> bool" where
  "addr_spec s = (case py_split 64 s of
                    [l, d] \<Rightarrow> dot_atom l \<and> dot_atom d
                  | _ \<Rightarrow> False)"

text \<open>The address of \<open> <local@domain>\<close>, the part of a mailbox after its name.\<close>

definition angle_addr :: "pystr \<Rightarrow> pystr option" where
  "angle_addr s =
     (if 3 \<le> length s \<and> take 2 s = [32, 60] \<and> last s = 62 \<and> addr_spec (butlast (drop 2 s))
      then Some (butlast (drop 2 s)) else None)"

definition mailbox :: "pystr \<Rightarrow> pystr option" where
  "mailbox a =
     (if addr_spec a then Some a
      else if a \<noteq> [] \<and> hd a = 34 then
        (let q = takeWhile (\<lambda>c. c \<noteq> 34) (tl a)
         in if q \<noteq> [] \<and> list_all (\<lambda>c. is_alnum c \<or> c = 32 \<or> c = 44) q
               \<and> length q < length (tl a)
            then angle_addr (drop (Suc (length q)) (tl a)) else None)
      else (let name = takeWhile is_alnum a
            in if name \<noteq> [] then angle_addr (drop (length name) a) else None))"

text \<open>The header value cut at the commas that are not between double quotes.\<close>

fun split_items :: "bool \<Rightarrow> pystr \<Rightarrow> pystr list" where
  "split_items q [] = [[]]"
| "split_items q (c # s) =
     (if c = 44 \<and> \<not> q then [] # split_items q s
      else (case split_items (if c = 34 then \<not> q else q) s of
              [] \<Rightarrow> [[c]]
            | x # xs \<Rightarrow> (c # x) # xs))"

definition to_addrs :: "pystr \<Rightarrow> pystr list option" where
  "to_addrs field =
     (if field = [] then Some [[]]
      else (case split_items False field of
              [] \<Rightarrow> None
            | x # xs \<Rightarrow>
                if list_all (\<lambda>i. i \<noteq> [] \<and> hd i = 32) xs
                then those (map mailbox (x # map tl xs)) else None))"

text \<open>The addresses a message is sent to.\<close>

definition envelope :: "session \<Rightarrow> pystr list option" where
  "envelope m = to_addrs (msg_to m)"

section \<open>The run\<close>

text \<open>
  The two subjects and bodies.  U+2705 and U+274C are the check mark and the cross
  mark, U+00C6 is the capital ae.
\<close>

definition restock_subject :: pystr where
  "restock_subject = [0x2705] @ ustr '' Back in stock: Stop madspild (M'' @ [0xC6] @ ustr ''T)''"

definition restock_body :: "env \<Rightarrow> pystr" where
  "restock_body E =
     ustr ''It looks AVAILABLE right now.'' @ [10, 10] @ PRODUCT_URL @ [10, 10]
     @ ustr ''Checked (UTC): '' @ isoformat E (now_restock E)"

definition status_subject :: pystr where
  "status_subject = ustr ''Stock status (12h): Stop madspild (M'' @ [0xC6] @ ustr ''T)''"

definition status_body :: "env \<Rightarrow> bool \<Rightarrow> pystr" where
  "status_body E available =
     ustr ''Current status: ''
     @ (if available then ustr ''AVAILABLE '' @ [0x2705] else ustr ''NOT available '' @ [0x274C])
     @ [10, 10] @ PRODUCT_URL @ [10, 10]
     @ ustr ''Checked (UTC): '' @ isoformat E (now_status E)"

text \<open>
  \<open>main\<close>, statement by statement.  The result is the exception the run ended with
  (\<open>None\<close> when it ran to its end) and the world it left.  \<open>state.get\<close> raises
  \<open>AttributeError\<close> when the loaded state is not a \<open>dict\<close>.  The line the script
  prints at its end is left out.
\<close>

definition main :: "env \<Rightarrow> world \<Rightarrow> exn option \<times> world" where
  "main E w =
     (case fetch_html E PRODUCT_URL of
        Inl e \<Rightarrow> (Some e, w)
      | Inr html \<Rightarrow>
     (let available = detect_available (re_ci E) html in
     (case load_state w of
        Inl e \<Rightarrow> (Some e, w)
      | Inr state \<Rightarrow>
     (case state of
        JDict d \<Rightarrow>
          (let last_available = dict_get d (ustr ''last_available'') in
          (case (if available \<and> last_available \<noteq> JBool True
                 then send_email E w restock_subject (restock_body E)
                 else (None, w)) of
             (Some e, w1) \<Rightarrow> (Some e, w1)
           | (None, w1) \<Rightarrow>
          (case should_send_12h_status E (dict_get d (ustr ''last_status_email_utc'')) (now E) of
             Inl e \<Rightarrow> (Some e, w1)
           | Inr send \<Rightarrow>
               if send then
                 (case send_email E w1 status_subject (status_body E available) of
                    (Some e, w2) \<Rightarrow> (Some e, w2)
                  | (None, w2) \<Rightarrow>
                      save_state w2
                        (JDict (dict_setitem
                                  (dict_setitem d (ustr ''last_status_email_utc'')
                                     (JStr (isoformat E (now E))))
                                  (ustr ''last_available'') (JBool available))))
               else save_state w1
                      (JDict (dict_setitem d (ustr ''last_available'') (JBool available))))))
      | _ \<Rightarrow> (Some AttributeError, w)))))"

section \<open>A sample environment\<close>

text \<open>
  An environment for examples.  Instants are counted from 2024-01-01T00:00:00 UTC, and
  the two date functions are the library's on that day, at whole seconds: \<open>sample_isoformat\<close>
  writes \<open>2024-01-01THH:MM:SS+00:00\<close>, and \<open>sample_fromisoformat\<close> reads that form
  as an aware value and the form without the offset as a naive one.
\<close>

definition two_digits :: "nat \<Rightarrow> pystr" where
  "two_digits n = [48 + n div 10, 48 + n mod 10]"

definition sample_isoformat :: "int \<Rightarrow> pystr" where
  "sample_isoformat t =
     (let secs = nat (t div 1000000)
      in ustr ''2024-01-01T'' @ two_digits (secs div 3600) @ [58]
         @ two_digits (secs div 60 mod 60) @ [58] @ two_digits (secs mod 60) @ ustr ''+00:00'')"

fun clock_value :: "pystr \<Rightarrow> int option" where
  "clock_value [h1, h2, c1, m1, m2, c2, s1, s2] =
     (if list_all is_digit [h1, h2, m1, m2, s1, s2] \<and> c1 = 58 \<and> c2 = 58
         \<and> (h1 - 48) * 10 + (h2 - 48) < 24 \<and> m1 < 54 \<and> s1 < 54
      then Some (int ((((h1 - 48) * 10 + (h2 - 48)) * 60 + (m1 - 48) * 10 + (m2 - 48)) * 60
                      + (s1 - 48) * 10 + (s2 - 48)) * 1000000)
      else None)"
| "clock_value _ = None"

definition sample_fromisoformat :: "pystr \<Rightarrow> exn + datetime" where
  "sample_fromisoformat s =
     (if take 11 s = ustr ''2024-01-01T'' then
        (case clock_value (take 8 (drop 11 s)) of
           None \<Rightarrow> Inl ValueError
         | Some t \<Rightarrow>
             if drop 19 s = [] then Inr (Naive t)
             else if drop 19 s = ustr ''+00:00'' then Inr (Aware t)
             else Inl ValueError)
      else Inl ValueError)"

definition sample_int :: "pystr \<Rightarrow> exn + int" where
  "sample_int s =
     (if s \<noteq> [] \<and> list_all is_digit s then Inr (int (digits_value s)) else Inl ValueError)"

definition sample_environ :: "pystr \<Rightarrow> pystr option" where
  "sample_environ =
     map_of [(ustr ''SMTP_HOST'', ustr ''smtp.example.org''),
             (ustr ''SMTP_USERNAME'', ustr ''bot''),
             (ustr ''SMTP_PASSWORD'', ustr ''secret''),
             (ustr ''MAIL_FROM'', ustr ''bot@example.org''),
             (ustr ''MAIL_TO'', ustr '' a@example.org, ,b@example.org ,'')]"

text \<open>The sample environment for a page text, a clock reading and an SMTP server.\<close>

definition sample_env :: "pystr \<Rightarrow> int \<Rightarrow> (session \<Rightarrow> bool) \<Rightarrow> env" where
  "sample_env html t ok =
     \<lparr>re_ci = latin1_ci, fromisoformat = sample_fromisoformat, isoformat = sample_isoformat,
      py_int = sample_int,
      http_get = (\<lambda>url. if url = PRODUCT_URL then Inr html else Inl NetworkError),
      environ = sample_environ, now = t, now_restock = t, now_status = t, smtp_ok = ok\<rparr>"

text \<open>The sample environment with another \<open>MAIL_TO\<close> value, where every send goes through.\<close>

definition sample_env_to :: "pystr \<Rightarrow> env" where
  "sample_env_to mail_to =
     (sample_env [] 0 (\<lambda>m. True))\<lparr>environ := sample_environ(ustr ''MAIL_TO'' \<mapsto> mail_to)\<rparr>"

section \<open>Notions used in the statements\<close>

text \<open>
  What it means for a text to contain a pattern, case ignored: some contiguous part of
  the text has the pattern's length and matches it character by character.
\<close>

definition contains_ci :: "casetab \<Rightarrow> pystr \<Rightarrow> pystr \<Rightarrow> bool" where
  "contains_ci ci pat s = (\<exists>pre mid post. s = pre @ mid @ post \<and> list_all2 ci pat mid)"

text \<open>
  The state record of the specification, as the \<open>dict\<close> the script keeps it in: the
  availability of the last run (or unset) and the time of the last status message (or
  unset).  The default state of \<open>load_state\<close> is the one with both fields unset.
\<close>

definition stock_state :: "bool option \<Rightarrow> pystr option \<Rightarrow> json" where
  "stock_state last_available last_status =
     JDict [(ustr ''last_available'',
               (case last_available of None \<Rightarrow> JNull | Some b \<Rightarrow> JBool b)),
            (ustr ''last_status_email_utc'',
               (case last_status of None \<Rightarrow> JNull | Some s \<Rightarrow> JStr s))]"

text \<open>The JSON values that are written on one line: null, a truth value or a string.\<close>

definition scalar :: "json \<Rightarrow> bool" where
  "scalar v = (case v of JNull \<Rightarrow> True | JBool b \<Rightarrow> True | JStr s \<Rightarrow> True | _ \<Rightarrow> False)"

text \<open>
  The messages delivered between two worlds of a run, and whether the restock alert
  or the status message is among them.
\<close>

definition delivered :: "world \<Rightarrow> world \<Rightarrow> session list" where
  "delivered w w' = drop (length (outbox w)) (outbox w')"

definition restock_sent :: "world \<Rightarrow> world \<Rightarrow> bool" where
  "restock_sent w w' = list_ex (\<lambda>m. msg_subject m = restock_subject) (delivered w w')"

definition status_sent :: "world \<Rightarrow> world \<Rightarrow> bool" where
  "status_sent w w' = list_ex (\<lambda>m. msg_subject m = status_subject) (delivered w w')"

text \<open>
  An entry of the recipient list is blank when it consists of whitespace only (the empty
  entry is blank); \<open>trimmed e r\<close> says that \<open>r\<close> is the entry \<open>e\<close> without the
  whitespace at its two ends, and that \<open>r\<close> is not empty.
\<close>

definition blank :: "pystr \<Rightarrow> bool" where
  "blank e = list_all py_isspace e"

definition trimmed :: "pystr \<Rightarrow> pystr \<Rightarrow> bool" where
  "trimmed e r =
     (\<exists>pre post. e = pre @ r @ post \<and> list_all py_isspace pre \<and> list_all py_isspace post
        \<and> r \<noteq> [] \<and> \<not> py_isspace (hd r) \<and> \<not> py_isspace (last r))"

section \<open>Properties of the classifier\<close>

lemma match_here_iff:
  "match_here ci pat t = (\<exists>mid post. t = mid @ post \<and> list_all2 ci pat mid)"
proof (induction ci pat t rule: match_here.induct)
  case (1 ci t)
  show ?case by simp
next
  case (2 ci p ps)
  show ?case by simp
next
  case (3 ci p ps c t)
  show ?case
  proof
    assume "match_here ci (p # ps) (c # t)"
    with 3 obtain mid post where "ci p c" "t = mid @ post" "list_all2 ci ps mid"
      by auto
    then have "c # t = (c # mid) @ post \<and> list_all2 ci (p # ps) (c # mid)"
      by simp
    then show "\<exists>mid post. c # t = mid @ post \<and> list_all2 ci (p # ps) mid"
      by blast
  next
    assume "\<exists>mid post. c # t = mid @ post \<and> list_all2 ci (p # ps) mid"
    then obtain mid post where m: "c # t = mid @ post" "list_all2 ci (p # ps) mid"
      by blast
    from m(2) obtain m1 ms where ms: "mid = m1 # ms" "ci p m1" "list_all2 ci ps ms"
      by (auto simp: list_all2_Cons1)
    with m(1) have "m1 = c" "t = ms @ post"
      by simp_all
    with ms 3 show "match_here ci (p # ps) (c # t)"
      by auto
  qed
qed

lemma re_search_iff: "re_search ci pat s = contains_ci ci pat s"
proof (induction s)
  case Nil
  show ?case by (simp add: match_here_iff contains_ci_def)
next
  case (Cons c t)
  show ?case
  proof
    assume "re_search ci pat (c # t)"
    then consider "match_here ci pat (c # t)" | "re_search ci pat t"
      by auto
    then show "contains_ci ci pat (c # t)"
    proof cases
      case 1
      then obtain mid post where "c # t = [] @ mid @ post" "list_all2 ci pat mid"
        by (auto simp: match_here_iff)
      then show ?thesis unfolding contains_ci_def by blast
    next
      case 2
      with Cons obtain pre mid post where "t = pre @ mid @ post" "list_all2 ci pat mid"
        by (auto simp: contains_ci_def)
      then have "c # t = (c # pre) @ mid @ post \<and> list_all2 ci pat mid"
        by simp
      then show ?thesis unfolding contains_ci_def by blast
    qed
  next
    assume "contains_ci ci pat (c # t)"
    then obtain pre mid post where d: "c # t = pre @ mid @ post" "list_all2 ci pat mid"
      by (auto simp: contains_ci_def)
    show "re_search ci pat (c # t)"
    proof (cases pre)
      case Nil
      with d have "match_here ci pat (c # t)"
        by (auto simp: match_here_iff)
      then show ?thesis by simp
    next
      case (Cons a pre')
      with d have "t = pre' @ mid @ post"
        by simp
      with d(2) have "contains_ci ci pat t"
        unfolding contains_ci_def by blast
      with Cons.IH show ?thesis by simp
    qed
  qed
qed

lemma any_pattern_iff:
  "any_pattern ci pats html = (\<exists>pat \<in> set pats. contains_ci ci pat html)"
  by (induction pats) (auto simp: re_search_iff)

section \<open>Properties of the text functions\<close>

lemma py_replace_append: "py_replace old new (s @ t) = py_replace old new s @ py_replace old new t"
  by (simp add: py_replace_def)

lemma py_replace_absent: "old \<notin> set s \<Longrightarrow> py_replace old new s = s"
  by (induction s) (auto simp: py_replace_def)

lemma py_replace_Z_suffix:
  "py_replace 90 (ustr ''+00:00'') (s @ ustr ''Z'')
   = py_replace 90 (ustr ''+00:00'') (s @ ustr ''+00:00'')"
  by (simp add: py_replace_append) (simp add: py_replace_def ustr_def)

lemma py_split_nonempty: "py_split sep s \<noteq> []"
  by (induction s) (auto split: list.splits)

lemma py_join_Cons: "ys \<noteq> [] \<Longrightarrow> py_join sep (x # ys) = x @ sep @ py_join sep ys"
  by (cases ys) simp_all

lemma py_join_split: "py_join [sep] (py_split sep s) = s"
proof (induction s)
  case Nil
  show ?case by simp
next
  case (Cons c s)
  obtain x xs where sp: "py_split sep s = x # xs"
    using py_split_nonempty [of sep s] by (cases "py_split sep s") auto
  show ?case
  proof (cases "c = sep")
    case True
    with Cons show ?thesis by (simp add: py_join_Cons py_split_nonempty)
  next
    case False
    from Cons sp have "x @ (if xs = [] then [] else [sep] @ py_join [sep] xs) = s"
      by (cases xs) auto
    with False sp show ?thesis by (cases xs) auto
  qed
qed

lemma py_split_no_sep: "r \<in> set (py_split sep s) \<Longrightarrow> sep \<notin> set r"
proof (induction s arbitrary: r)
  case Nil
  then show ?case by simp
next
  case (Cons c s)
  then show ?case
    by (cases "py_split sep s") (auto split: if_splits)
qed

lemma py_strip_decomp:
  "\<exists>pre post. r = pre @ py_strip r @ post \<and> list_all py_isspace pre \<and> list_all py_isspace post"
proof -
  let ?a = "takeWhile py_isspace r" and ?m = "dropWhile py_isspace r"
  let ?b = "rev (takeWhile py_isspace (rev ?m))"
  have "rev ?m = takeWhile py_isspace (rev ?m) @ dropWhile py_isspace (rev ?m)"
    by simp
  then have "?m = rev (dropWhile py_isspace (rev ?m)) @ ?b"
    by (metis rev_append rev_rev_ident)
  then have "r = ?a @ py_strip r @ ?b"
    by (metis py_strip_def takeWhile_dropWhile_id)
  moreover have "list_all py_isspace ?a"
    by (simp add: list_all_iff) (meson set_takeWhileD)
  moreover have "list_all py_isspace ?b"
    by (simp add: list_all_iff) (meson set_takeWhileD)
  ultimately show ?thesis by blast
qed

lemma py_strip_ends:
  assumes "py_strip r \<noteq> []"
  shows "\<not> py_isspace (hd (py_strip r)) \<and> \<not> py_isspace (last (py_strip r))"
proof -
  let ?m = "dropWhile py_isspace r"
  let ?d = "dropWhile py_isspace (rev ?m)"
  from assms have d: "?d \<noteq> []" by (simp add: py_strip_def)
  then have "\<not> py_isspace (hd ?d)" by (rule hd_dropWhile)
  with d have l: "\<not> py_isspace (last (py_strip r))"
    by (simp add: py_strip_def last_rev)
  from d have m: "?m \<noteq> []"
    by (metis dropWhile.simps(1) rev.simps(1))
  then have hm: "\<not> py_isspace (hd ?m)" by (rule hd_dropWhile)
  have "rev ?m = takeWhile py_isspace (rev ?m) @ ?d" by simp
  then have "?m = rev ?d @ rev (takeWhile py_isspace (rev ?m))"
    by (metis rev_append rev_rev_ident)
  with d have "hd ?m = hd (rev ?d)"
    by (metis hd_append2 rev_is_Nil_conv)
  with hm have "\<not> py_isspace (hd (py_strip r))" by (simp add: py_strip_def)
  with l show ?thesis by simp
qed

lemma py_strip_empty_iff: "py_strip r = [] \<longleftrightarrow> list_all py_isspace r"
proof
  assume e: "py_strip r = []"
  have "dropWhile py_isspace r = []"
  proof (rule ccontr)
    assume n: "dropWhile py_isspace r \<noteq> []"
    then have "\<not> py_isspace (hd (dropWhile py_isspace r))"
      by (rule hd_dropWhile)
    moreover from n have "hd (dropWhile py_isspace r) \<in> set (rev (dropWhile py_isspace r))"
      by simp
    moreover from e have "\<forall>x \<in> set (rev (dropWhile py_isspace r)). py_isspace x"
      unfolding py_strip_def rev_is_Nil_conv dropWhile_eq_Nil_conv .
    ultimately show False by blast
  qed
  then show "list_all py_isspace r"
    by (simp add: list_all_iff dropWhile_eq_Nil_conv)
next
  assume "list_all py_isspace r"
  then have d: "dropWhile py_isspace r = []"
    by (simp add: list_all_iff dropWhile_eq_Nil_conv)
  show "py_strip r = []"
    unfolding py_strip_def d by simp
qed

lemma trimmed_strip: "\<not> blank e \<Longrightarrow> trimmed e (py_strip e)"
  unfolding trimmed_def blank_def
  using py_strip_decomp [of e] py_strip_ends [of e] py_strip_empty_iff [of e] by blast

lemma recipients_alt:
  "recipients mail_to = map py_strip (filter (\<lambda>e. \<not> blank e) (py_split 44 mail_to))"
  by (simp add: recipients_def blank_def py_strip_empty_iff)

section \<open>Properties of the envelope\<close>

lemma set_py_join: "set (py_join sep xs) \<subseteq> set sep \<union> \<Union> (set ` set xs)"
  by (induction sep xs rule: py_join.induct) auto

lemma dot_atom_chars:
  assumes "dot_atom s" shows "list_all (\<lambda>c. is_atext c \<or> c = 46) s"
proof -
  have "set s \<subseteq> set [46] \<union> \<Union> (set ` set (py_split 46 s))"
    using set_py_join [of "[46]" "py_split 46 s"] by (simp add: py_join_split)
  moreover have "\<forall>p \<in> set (py_split 46 s). \<forall>c \<in> set p. is_atext c"
    using assms by (auto simp: dot_atom_def list_all_iff)
  ultimately show ?thesis by (auto simp: list_all_iff)
qed

lemma dot_atom_nonempty: "dot_atom s \<Longrightarrow> s \<noteq> []"
  by (auto simp: dot_atom_def)

lemma addr_spec_chars:
  assumes "addr_spec s"
  shows "list_all (\<lambda>c. is_atext c \<or> c = 46 \<or> c = 64) s" and "s \<noteq> []"
proof -
  obtain l d where ld: "py_split 64 s = [l, d]" "dot_atom l" "dot_atom d"
    using assms by (auto simp: addr_spec_def split: list.splits)
  have s: "s = l @ [64] @ d"
    using py_join_split [of 64 s] ld by simp
  show "list_all (\<lambda>c. is_atext c \<or> c = 46 \<or> c = 64) s"
    using dot_atom_chars [OF ld(2)] dot_atom_chars [OF ld(3)]
    by (auto simp: s list_all_iff)
  show "s \<noteq> []" by (simp add: s)
qed

lemma addr_spec_plain:
  assumes "addr_spec s" shows "44 \<notin> set s" and "34 \<notin> set s"
  using addr_spec_chars(1) [OF assms]
  by (auto simp: list_all_iff is_atext_def is_alnum_def)

lemma split_items_nonempty: "split_items q s \<noteq> []"
  by (induction s arbitrary: q) (auto split: list.splits)

lemma split_items_plain:
  "44 \<notin> set x \<Longrightarrow> 34 \<notin> set x \<Longrightarrow> split_items False (x @ s) =
     (case split_items False s of [] \<Rightarrow> [x] | y # ys \<Rightarrow> (x @ y) # ys)"
  by (induction x) (auto split: list.splits simp: split_items_nonempty)

lemma split_items_join:
  "\<forall>r \<in> set (x # rs). 44 \<notin> set r \<and> 34 \<notin> set r
   \<Longrightarrow> split_items False (py_join [44, 32] (x # rs)) = x # map ((#) 32) rs"
proof (induction rs arbitrary: x)
  case Nil
  then show ?case using split_items_plain [of x "[]"] by simp
next
  case (Cons y ys)
  have "split_items False (py_join [44, 32] (y # ys)) = y # map ((#) 32) ys"
    using Cons by simp
  then show ?case
    using Cons.prems split_items_plain [of x "[44, 32] @ py_join [44, 32] (y # ys)"]
    by simp
qed

lemma those_map_id: "\<forall>x \<in> set xs. f x = Some x \<Longrightarrow> those (map f xs) = Some xs"
  by (induction xs) auto

lemma to_addrs_join:
  assumes "rs \<noteq> []" and "list_all addr_spec rs"
  shows "to_addrs (py_join (ustr '', '') rs) = Some rs"
proof -
  obtain x xs where rs: "rs = x # xs" using assms(1) by (cases rs) auto
  have plain: "\<forall>r \<in> set (x # xs). 44 \<notin> set r \<and> 34 \<notin> set r"
    using assms(2) addr_spec_plain by (auto simp: rs list_all_iff)
  have sep: "ustr '', '' = [44, 32]" by (simp add: ustr_def)
  have sp: "split_items False (py_join [44, 32] (x # xs)) = x # map ((#) 32) xs"
    using split_items_join [OF plain] .
  have "x \<noteq> []"
    using assms(2) addr_spec_chars(2) by (simp add: rs)
  then have ne: "py_join [44, 32] (x # xs) \<noteq> []"
    by (cases xs) auto
  have mb: "\<forall>r \<in> set (x # xs). mailbox r = Some r"
    using assms(2) by (auto simp: rs list_all_iff mailbox_def)
  show ?thesis
    unfolding to_addrs_def rs sep
    using ne sp those_map_id [OF mb]
    by (simp add: list_all_iff comp_def)
qed

section \<open>Properties of the JSON functions\<close>

lemma hexval_hexdigit: "d < 16 \<Longrightarrow> hexval (hexdigit d) = Some d"
  by (auto simp: hexval_def hexdigit_def)

lemma unescape_u00:
  assumes "c < 32"
  shows "unescape (117 # 48 # 48 # hexdigit (c div 16) # hexdigit (c mod 16) # r) = Some (c, 5)"
proof -
  have d: "c div 16 < 16" "c mod 16 < 16" using assms by simp_all
  have z: "hexval 48 = Some 0" by (simp add: hexval_def)
  have "hex4 (48 # 48 # hexdigit (c div 16) # hexdigit (c mod 16) # r) = Some c"
    by (simp add: z hexval_hexdigit [OF d(1)] hexval_hexdigit [OF d(2)])
  moreover have "\<not> is_high_surrogate c"
    using assms by (simp add: is_high_surrogate_def)
  ultimately show ?thesis
    by (simp add: unescape_def)
qed

lemma scanstring_escape_char:
  "scanstring (escape_char c @ r) = (case scanstring r of None \<Rightarrow> None | Some (t, r') \<Rightarrow> Some (c # t, r'))"
proof -
  consider "c = 34" | "c = 92" | "c = 8" | "c = 12" | "c = 10" | "c = 13" | "c = 9"
    | "c < 32" "c \<notin> {8, 12, 10, 13, 9}" | "32 \<le> c" "c \<noteq> 34" "c \<noteq> 92"
    by force
  then show ?thesis
  proof cases
    case 8
    then have "escape_char c = [92, 117, 48, 48, hexdigit (c div 16), hexdigit (c mod 16)]"
      by (auto simp: escape_char_def)
    with 8 show ?thesis
      by (simp add: unescape_u00)
  next
    case 9
    then have "escape_char c = [c]" by (auto simp: escape_char_def)
    with 9 show ?thesis by simp
  qed (auto simp add: escape_char_def unescape_def backslash_def)
qed

lemma scanstring_escaped:
  "scanstring (concat (map escape_char s) @ 34 # r) = Some (s, r)"
  by (induction s) (simp_all add: scanstring_escape_char)


lemma skip_ws_nonws: "\<not> is_ws c \<Longrightarrow> skip_ws (c # r) = c # r"
  by (simp add: skip_ws_def)

lemma scan_once_Suc:
  "scan_once (Suc n) (c # r) =
     (if c = 34 then
        (case scanstring r of
           None \<Rightarrow> Inl JSONDecodeError
         | Some (t, r') \<Rightarrow> Inr (JStr t, r'))
      else if c = 123 then
        (case skip_ws r of
           [] \<Rightarrow> Inl JSONDecodeError
         | c' # r' \<Rightarrow> if c' = 125 then Inr (JDict [], r') else parse_object n [] (c' # r'))
      else if c = 91 then
        (case skip_ws r of
           [] \<Rightarrow> Inl JSONDecodeError
         | c' # r' \<Rightarrow> if c' = 93 then Inr (JList [], r') else parse_array n [] (c' # r'))
      else if take 4 (c # r) = ustr ''null'' then Inr (JNull, drop 4 (c # r))
      else if take 4 (c # r) = ustr ''true'' then Inr (JBool True, drop 4 (c # r))
      else if take 5 (c # r) = ustr ''false'' then Inr (JBool False, drop 5 (c # r))
      else if take 3 (c # r) = ustr ''NaN'' \<or> take 8 (c # r) = ustr ''Infinity''
              \<or> take 9 (c # r) = ustr ''-Infinity'' then Inl NotModelled
      else match_number (c # r))"
  by simp

lemma parse_object_Suc:
  "parse_object (Suc n) d (34 # r) =
     (case scanstring r of
        None \<Rightarrow> Inl JSONDecodeError
      | Some (key, r1) \<Rightarrow>
          (case skip_ws r1 of
             [] \<Rightarrow> Inl JSONDecodeError
           | c # r2 \<Rightarrow>
               if c \<noteq> 58 then Inl JSONDecodeError
               else (case scan_once n (skip_ws r2) of
                       Inl e \<Rightarrow> Inl e
                     | Inr (v, r3) \<Rightarrow>
                         (case skip_ws r3 of
                            [] \<Rightarrow> Inl JSONDecodeError
                          | c' # r4 \<Rightarrow>
                              if c' = 125 then Inr (JDict (dict_setitem d key v), r4)
                              else if c' = 44
                              then parse_object n (dict_setitem d key v) (skip_ws r4)
                              else Inl JSONDecodeError))))"
  by simp

lemmas budget_simps = scan_once.simps parse_object.simps parse_array.simps

lemma scan_once_string:
  "scan_once (Suc n) (encode_basestring s @ r) = Inr (JStr s, r)"
  by (simp add: encode_basestring_def scanstring_escaped scan_once_Suc del: budget_simps)

lemma scan_once_scalar:
  assumes "scalar v"
  shows "scan_once (Suc n) (skip_ws (32 # encode l v @ r)) = Inr (v, r)"
proof (cases v)
  case JNull
  then show ?thesis
    by (simp add: skip_ws_def is_ws_def ustr_def scan_once_Suc del: budget_simps)
next
  case (JBool b)
  then show ?thesis
    by (cases b) (simp_all add: skip_ws_def is_ws_def ustr_def scan_once_Suc del: budget_simps)
next
  case (JStr s)
  then have "skip_ws (32 # encode l v @ r) = encode_basestring s @ r"
    by (simp add: skip_ws_def is_ws_def encode_basestring_def)
  then show ?thesis
    by (simp only: scan_once_string JStr)
qed (use assms in \<open>simp_all add: scalar_def\<close>)

lemma json_dumps_two:
  "json_dumps (JDict [(k1, v1), (k2, v2)]) =
     [123, 10, 32, 32] @ encode_basestring k1 @ [58, 32] @ encode 1 v1
     @ [44, 10, 32, 32] @ encode_basestring k2 @ [58, 32] @ encode 1 v2 @ [10, 125]"
  by (simp add: json_dumps_def newline_indent_def numeral_2_eq_2)

lemma parse_object_member:
  assumes "scalar v"
  shows "parse_object (Suc (Suc n)) d (encode_basestring k @ 58 # 32 # encode l v @ r)
         = (case skip_ws r of
              [] \<Rightarrow> Inl JSONDecodeError
            | c' # r4 \<Rightarrow>
                if c' = 125 then Inr (JDict (dict_setitem d k v), r4)
                else if c' = 44 then parse_object (Suc n) (dict_setitem d k v) (skip_ws r4)
                else Inl JSONDecodeError)"
proof -
  have e: "encode_basestring k @ 58 # 32 # encode l v @ r
           = 34 # concat (map escape_char k) @ 34 # 58 # 32 # encode l v @ r"
    by (simp add: encode_basestring_def)
  have w: "skip_ws (58 # 32 # encode l v @ r) = 58 # 32 # encode l v @ r"
    by (simp add: skip_ws_def is_ws_def)
  show ?thesis
    unfolding e parse_object_Suc scanstring_escaped
    by (simp add: w scan_once_scalar [OF assms] del: budget_simps)
qed

lemma scan_once_two:
  assumes "scalar v1" and "scalar v2" and "k1 \<noteq> k2"
  shows "scan_once (Suc (Suc (Suc (Suc n))))
           (123 # 10 # 32 # 32 # encode_basestring k1 @ 58 # 32 # encode 1 v1
            @ 44 # 10 # 32 # 32 # encode_basestring k2 @ 58 # 32 # encode 1 v2 @ [10, 125, 10])
         = Inr (JDict [(k1, v1), (k2, v2)], [10])"
proof -
  let ?m2 = "encode_basestring k2 @ 58 # 32 # encode 1 v2 @ [10, 125, 10]"
  let ?m1 = "encode_basestring k1 @ 58 # 32 # encode 1 v1 @ 44 # 10 # 32 # 32 # ?m2"
  let ?v = "JDict [(k1, v1), (k2, v2)]"
  have sk: "skip_ws (10 # 32 # 32 # encode_basestring k @ r) = encode_basestring k @ r" for k r
    by (simp add: skip_ws_def is_ws_def encode_basestring_def)
  have w2: "skip_ws [10, 125, 10] = [125, 10]"
    by (simp add: skip_ws_def is_ws_def)
  have m2: "parse_object (Suc (Suc n)) [(k1, v1)] ?m2 = Inr (?v, [10])"
    unfolding parse_object_member [OF assms(2)] w2 using assms(3) by simp
  have w1: "skip_ws (44 # 10 # 32 # 32 # ?m2) = 44 # 10 # 32 # 32 # ?m2"
    by (simp add: skip_ws_def is_ws_def)
  have m1: "parse_object (Suc (Suc (Suc n))) [] ?m1 = Inr (?v, [10])"
    unfolding parse_object_member [OF assms(1)] w1 using m2 by (simp add: sk del: budget_simps)
  obtain t where t: "?m1 = 34 # t"
    by (simp add: encode_basestring_def)
  have "scan_once (Suc (Suc (Suc (Suc n)))) (123 # 10 # 32 # 32 # ?m1)
        = parse_object (Suc (Suc (Suc n))) [] ?m1"
    unfolding scan_once_Suc sk unfolding t by simp
  with m1 show ?thesis by simp
qed


lemma loads_dumps_two:
  assumes "scalar v1" and "scalar v2" and "k1 \<noteq> k2"
  shows "json_loads (json_dumps (JDict [(k1, v1), (k2, v2)]) @ [10])
         = Inr (JDict [(k1, v1), (k2, v2)])"
proof -
  let ?s = "json_dumps (JDict [(k1, v1), (k2, v2)]) @ [10]"
  let ?t = "123 # 10 # 32 # 32 # encode_basestring k1 @ 58 # 32 # encode 1 v1
            @ 44 # 10 # 32 # 32 # encode_basestring k2 @ 58 # 32 # encode 1 v2 @ [10, 125, 10]"
  have s: "?s = ?t"
    by (simp add: json_dumps_two)
  have "3 \<le> 2 * length ?t" by simp
  then obtain n where n: "2 * length ?t = 3 + n"
    using le_Suc_ex by blast
  then have fuel: "Suc (2 * length ?t) = Suc (Suc (Suc (Suc n)))"
    by simp
  have ws: "skip_ws ?t = ?t"
    by (simp add: skip_ws_def is_ws_def)
  have "scan_once (Suc (2 * length ?t)) (skip_ws ?t) = Inr (JDict [(k1, v1), (k2, v2)], [10])"
    unfolding fuel ws by (rule scan_once_two [OF assms])
  moreover have "take 1 ?t \<noteq> [0xFEFF]" by simp
  moreover have "skip_ws [10] = []" by (simp add: skip_ws_def is_ws_def)
  ultimately show ?thesis
    unfolding s json_loads_def by (simp del: budget_simps)
qed

subsection \<open>The budget of the reader\<close>

text \<open>
  Every successful call of the reader consumes at least one character, and a budget of
  more than twice the length of the text is never used up.
\<close>

lemma length_skip_ws: "length (skip_ws s) \<le> length s"
  by (simp add: skip_ws_def length_dropWhile_le)

lemma skip_ws_Cons_length: "skip_ws s = c # r \<Longrightarrow> length r < length s"
  using length_skip_ws [of s] by simp

lemma scanstring_consumes: "scanstring s = Some (t, r) \<Longrightarrow> length r < length s"
proof (induction s arbitrary: t r rule: scanstring.induct)
  case 1
  then show ?case by simp
next
  case (2 c s)
  show ?case
  proof (cases "c = 34")
    case True
    with 2(3) show ?thesis by simp
  next
    case False
    show ?thesis
    proof (cases "c = 92")
      case True
      with 2(3) False obtain ch n t' where
        u: "unescape s = Some (ch, n)" and sc: "scanstring (drop n s) = Some (t', r)"
        by (auto split: option.splits prod.splits)
      from 2(1) [OF False True u refl sc] have "length r < length (drop n s)" .
      then show ?thesis by simp
    next
      case c: False
      with 2(3) False obtain t' where "\<not> c < 32" "scanstring s = Some (t', r)"
        by (auto split: option.splits prod.splits if_splits)
      with 2(2) [OF False c] show ?thesis by fastforce
    qed
  qed
qed

lemma match_number_consumes: "match_number s = Inr (v, r) \<Longrightarrow> length r < length s"
proof -
  assume a: "match_number s = Inr (v, r)"
  have dw: "length (dropWhile is_digit x) \<le> length x" for x
    by (rule length_dropWhile_le)
  show ?thesis
  proof (cases s)
    case Nil
    with a show ?thesis by (simp add: match_number_def)
  next
    case (Cons c s')
    show ?thesis
    proof (cases "c = 45")
      case True
      with a Cons show ?thesis
        using dw [of "tl s'"]
        by (cases s') (auto simp: match_number_def Let_def split: if_splits)
    next
      case False
      with a Cons show ?thesis
        using dw [of s']
        by (auto simp: match_number_def Let_def split: if_splits)
    qed
  qed
qed

lemma match_number_budget: "match_number s \<noteq> Inl RecursionError"
  by (auto simp: match_number_def Let_def split: list.splits)


lemma drop_take_length: "take k s = t \<Longrightarrow> length t = k \<Longrightarrow> 0 < k \<Longrightarrow> length (drop k s) < length s"
  by (cases "k \<le> length s") auto

lemma scan_once_Inr:
  assumes "scan_once (Suc n) s = Inr (v, r)"
  shows "length r < length s
         \<or> (\<exists>c r0 c' r'. s = c # r0 \<and> skip_ws r0 = c' # r'
               \<and> (parse_object n [] (c' # r') = Inr (v, r)
                    \<or> parse_array n [] (c' # r') = Inr (v, r)))"
proof (cases s)
  case Nil
  with assms show ?thesis by simp
next
  case (Cons c r0)
  have lit: "length (drop k (c # r0)) < length (c # r0)"
    if "take k (c # r0) = ustr t" "length t = k" "0 < k" for k t
    using drop_take_length [OF that(1)] that(2,3) by (simp add: ustr_def)
  from assms Cons show ?thesis
    unfolding Cons scan_once_Suc
    using lit [of 4 "''null''"] lit [of 4 "''true''"] lit [of 5 "''false''"]
          scanstring_consumes [of r0] match_number_consumes [of "c # r0" v r]
          skip_ws_Cons_length [of r0]
    by (auto split: if_splits option.splits list.splits)
qed


lemma parse_object_Inr:
  assumes "parse_object (Suc n) d s = Inr (v, r)"
  shows "\<exists>r0 key r1 r2 v0 r3 r4.
           s = 34 # r0 \<and> scanstring r0 = Some (key, r1) \<and> skip_ws r1 = 58 # r2
         \<and> scan_once n (skip_ws r2) = Inr (v0, r3)
         \<and> (skip_ws r3 = 125 # r
              \<or> (skip_ws r3 = 44 # r4
                  \<and> parse_object n (dict_setitem d key v0) (skip_ws r4) = Inr (v, r)))"
  using assms
  by (auto split: list.splits if_splits option.splits sum.splits prod.splits)

lemma parse_array_Inr:
  assumes "parse_array (Suc n) xs s = Inr (v, r)"
  shows "\<exists>v0 r3 r4.
           scan_once n s = Inr (v0, r3)
         \<and> (skip_ws r3 = 93 # r
              \<or> (skip_ws r3 = 44 # r4 \<and> parse_array n (xs @ [v0]) (skip_ws r4) = Inr (v, r)))"
  using assms
  by (auto split: list.splits if_splits sum.splits prod.splits)

lemma scan_once_Inl:
  assumes "scan_once (Suc n) s = Inl RecursionError"
  shows "\<exists>c r0 c' r'. s = c # r0 \<and> skip_ws r0 = c' # r'
           \<and> (parse_object n [] (c' # r') = Inl RecursionError
                \<or> parse_array n [] (c' # r') = Inl RecursionError)"
proof (cases s)
  case Nil
  with assms show ?thesis by simp
next
  case (Cons c r0)
  from assms show ?thesis
    unfolding Cons scan_once_Suc
    using match_number_budget [of "c # r0"]
    by (auto split: if_splits option.splits list.splits)
qed

lemma parse_object_Inl:
  assumes "parse_object (Suc n) d s = Inl RecursionError"
  shows "\<exists>r0 key r1 r2.
           s = 34 # r0 \<and> scanstring r0 = Some (key, r1) \<and> skip_ws r1 = 58 # r2
         \<and> (scan_once n (skip_ws r2) = Inl RecursionError
              \<or> (\<exists>v0 r3 r4. scan_once n (skip_ws r2) = Inr (v0, r3) \<and> skip_ws r3 = 44 # r4
                    \<and> parse_object n (dict_setitem d key v0) (skip_ws r4) = Inl RecursionError))"
  using assms
  by (auto split: list.splits if_splits option.splits sum.splits prod.splits)

lemma parse_array_Inl:
  assumes "parse_array (Suc n) xs s = Inl RecursionError"
  shows "scan_once n s = Inl RecursionError
         \<or> (\<exists>v0 r3 r4. scan_once n s = Inr (v0, r3) \<and> skip_ws r3 = 44 # r4
               \<and> parse_array n (xs @ [v0]) (skip_ws r4) = Inl RecursionError)"
  using assms
  by (auto split: list.splits if_splits sum.splits prod.splits)


lemma reader_consumes:
  "(\<forall>s v r. scan_once n s = Inr (v, r) \<longrightarrow> length r < length s)
   \<and> (\<forall>d s v r. parse_object n d s = Inr (v, r) \<longrightarrow> length r < length s)
   \<and> (\<forall>xs s v r. parse_array n xs s = Inr (v, r) \<longrightarrow> length r < length s)"
proof (induction n)
  case 0
  show ?case by simp
next
  case (Suc n)
  then have so: "\<And>s v r. scan_once n s = Inr (v, r) \<Longrightarrow> length r < length s"
    and po: "\<And>d s v r. parse_object n d s = Inr (v, r) \<Longrightarrow> length r < length s"
    and pa: "\<And>xs s v r. parse_array n xs s = Inr (v, r) \<Longrightarrow> length r < length s"
    by blast+
  have "length r < length s" if "scan_once (Suc n) s = Inr (v, r)" for s v r
    using scan_once_Inr [OF that] po pa skip_ws_Cons_length
    by fastforce
  moreover have "length r < length s" if a: "parse_object (Suc n) d s = Inr (v, r)" for d s v r
  proof -
    from parse_object_Inr [OF a] obtain r0 key r1 r2 v0 r3 r4 where
      s: "s = 34 # r0" and k: "scanstring r0 = Some (key, r1)" and c: "skip_ws r1 = 58 # r2"
      and v: "scan_once n (skip_ws r2) = Inr (v0, r3)"
      and e: "skip_ws r3 = 125 # r
              \<or> (skip_ws r3 = 44 # r4
                  \<and> parse_object n (dict_setitem d key v0) (skip_ws r4) = Inr (v, r))"
      by blast
    have "length r3 < length s"
      using s scanstring_consumes [OF k] skip_ws_Cons_length [OF c] so [OF v]
        length_skip_ws [of r2]
      by simp
    moreover from e have "length r < length r3"
    proof
      assume "skip_ws r3 = 125 # r"
      then show ?thesis by (rule skip_ws_Cons_length)
    next
      assume "skip_ws r3 = 44 # r4
              \<and> parse_object n (dict_setitem d key v0) (skip_ws r4) = Inr (v, r)"
      then show ?thesis
        using skip_ws_Cons_length [of r3 44 r4] po length_skip_ws [of r4] by fastforce
    qed
    ultimately show ?thesis by simp
  qed
  moreover have "length r < length s" if a: "parse_array (Suc n) xs s = Inr (v, r)" for xs s v r
  proof -
    from parse_array_Inr [OF a] obtain v0 r3 r4 where
      v: "scan_once n s = Inr (v0, r3)"
      and e: "skip_ws r3 = 93 # r
              \<or> (skip_ws r3 = 44 # r4 \<and> parse_array n (xs @ [v0]) (skip_ws r4) = Inr (v, r))"
      by blast
    from e have "length r < length r3"
    proof
      assume "skip_ws r3 = 93 # r"
      then show ?thesis by (rule skip_ws_Cons_length)
    next
      assume "skip_ws r3 = 44 # r4 \<and> parse_array n (xs @ [v0]) (skip_ws r4) = Inr (v, r)"
      then show ?thesis
        using skip_ws_Cons_length [of r3 44 r4] pa length_skip_ws [of r4] by fastforce
    qed
    with so [OF v] show ?thesis by simp
  qed
  ultimately show ?case by blast
qed

lemma reader_budget:
  "(\<forall>s. 2 * length s < n \<longrightarrow> scan_once n s \<noteq> Inl RecursionError)
   \<and> (\<forall>d s. 2 * length s + 2 \<le> n \<longrightarrow> parse_object n d s \<noteq> Inl RecursionError)
   \<and> (\<forall>xs s. 2 * length s + 2 \<le> n \<longrightarrow> parse_array n xs s \<noteq> Inl RecursionError)"
proof (induction n)
  case 0
  show ?case by simp
next
  case (Suc n)
  then have so: "\<And>s. 2 * length s < n \<Longrightarrow> scan_once n s \<noteq> Inl RecursionError"
    and po: "\<And>d s. 2 * length s + 2 \<le> n \<Longrightarrow> parse_object n d s \<noteq> Inl RecursionError"
    and pa: "\<And>xs s. 2 * length s + 2 \<le> n \<Longrightarrow> parse_array n xs s \<noteq> Inl RecursionError"
    by blast+
  note consumes = reader_consumes [of n, THEN conjunct1, rule_format]
  have "scan_once (Suc n) s \<noteq> Inl RecursionError" if b: "2 * length s < Suc n" for s
  proof
    assume "scan_once (Suc n) s = Inl RecursionError"
    from scan_once_Inl [OF this] obtain c r0 c' r' where
      s: "s = c # r0" and w: "skip_ws r0 = c' # r'"
      and e: "parse_object n [] (c' # r') = Inl RecursionError
              \<or> parse_array n [] (c' # r') = Inl RecursionError"
      by blast
    from s w b have "2 * length (c' # r') + 2 \<le> n"
      using skip_ws_Cons_length [OF w] by simp
    with e po pa show False by blast
  qed
  moreover have "parse_object (Suc n) d s \<noteq> Inl RecursionError"
    if b: "2 * length s + 2 \<le> Suc n" for d s
  proof
    assume "parse_object (Suc n) d s = Inl RecursionError"
    from parse_object_Inl [OF this] obtain r0 key r1 r2 where
      s: "s = 34 # r0" and k: "scanstring r0 = Some (key, r1)" and c: "skip_ws r1 = 58 # r2"
      and e: "scan_once n (skip_ws r2) = Inl RecursionError
              \<or> (\<exists>v0 r3 r4. scan_once n (skip_ws r2) = Inr (v0, r3) \<and> skip_ws r3 = 44 # r4
                    \<and> parse_object n (dict_setitem d key v0) (skip_ws r4) = Inl RecursionError)"
      by blast
    have l2: "length (skip_ws r2) + 3 \<le> length s"
      using s scanstring_consumes [OF k] skip_ws_Cons_length [OF c] length_skip_ws [of r2]
      by simp
    from e show False
    proof
      assume "scan_once n (skip_ws r2) = Inl RecursionError"
      moreover from l2 b have "2 * length (skip_ws r2) < n" by simp
      ultimately show False using so by blast
    next
      assume "\<exists>v0 r3 r4. scan_once n (skip_ws r2) = Inr (v0, r3) \<and> skip_ws r3 = 44 # r4
                \<and> parse_object n (dict_setitem d key v0) (skip_ws r4) = Inl RecursionError"
      then obtain v0 r3 r4 where v: "scan_once n (skip_ws r2) = Inr (v0, r3)"
        and w: "skip_ws r3 = 44 # r4"
        and p: "parse_object n (dict_setitem d key v0) (skip_ws r4) = Inl RecursionError"
        by blast
      from l2 b consumes [OF v] skip_ws_Cons_length [OF w] length_skip_ws [of r4]
      have "2 * length (skip_ws r4) + 2 \<le> n" by simp
      with p po show False by blast
    qed
  qed
  moreover have "parse_array (Suc n) xs s \<noteq> Inl RecursionError"
    if b: "2 * length s + 2 \<le> Suc n" for xs s
  proof
    assume "parse_array (Suc n) xs s = Inl RecursionError"
    from parse_array_Inl [OF this] show False
    proof
      assume "scan_once n s = Inl RecursionError"
      moreover from b have "2 * length s < n" by simp
      ultimately show False using so by blast
    next
      assume "\<exists>v0 r3 r4. scan_once n s = Inr (v0, r3) \<and> skip_ws r3 = 44 # r4
                \<and> parse_array n (xs @ [v0]) (skip_ws r4) = Inl RecursionError"
      then obtain v0 r3 r4 where v: "scan_once n s = Inr (v0, r3)"
        and w: "skip_ws r3 = 44 # r4"
        and p: "parse_array n (xs @ [v0]) (skip_ws r4) = Inl RecursionError"
        by blast
      from b consumes [OF v] skip_ws_Cons_length [OF w] length_skip_ws [of r4]
      have "2 * length (skip_ws r4) + 2 \<le> n" by simp
      with p pa show False by blast
    qed
  qed
  ultimately show ?case by blast
qed

lemma json_loads_budget: "json_loads s \<noteq> Inl RecursionError"
proof -
  have "2 * length (skip_ws s) < Suc (2 * length s)"
    using length_skip_ws [of s] by simp
  with reader_budget [of "Suc (2 * length s)"]
  have "scan_once (Suc (2 * length s)) (skip_ws s) \<noteq> Inl RecursionError"
    by blast
  then show ?thesis
    by (auto simp: json_loads_def split: sum.splits simp del: budget_simps)
qed

subsection \<open>Surrogates\<close>

lemma list_ex_escape_char: "list_ex is_surrogate (escape_char c) = is_surrogate c"
  by (auto simp: escape_char_def is_surrogate_def hexdigit_def)

lemma list_ex_basestring:
  "list_ex is_surrogate (encode_basestring s) = list_ex is_surrogate s"
proof -
  have "list_ex is_surrogate (concat (map escape_char s)) = list_ex is_surrogate s"
    by (induction s) (simp_all add: list_ex_escape_char)
  then show ?thesis
    by (simp add: encode_basestring_def is_surrogate_def)
qed

lemma list_ex_scalar:
  assumes "scalar v" and "\<And>s. v = JStr s \<Longrightarrow> \<not> list_ex is_surrogate s"
  shows "\<not> list_ex is_surrogate (encode l v)"
  using assms
  by (cases v) (auto simp: scalar_def ustr_def is_surrogate_def list_ex_basestring)

lemma no_surrogate_two:
  assumes "\<not> list_ex is_surrogate k1" and "\<not> list_ex is_surrogate k2"
    and "\<not> list_ex is_surrogate (encode 1 v1)" and "\<not> list_ex is_surrogate (encode 1 v2)"
  shows "\<not> list_ex is_surrogate (json_dumps (JDict [(k1, v1), (k2, v2)]) @ [10])"
  using assms by (simp add: json_dumps_two list_ex_basestring) (simp add: is_surrogate_def)

lemma state_keys:
  "ustr ''last_available'' \<noteq> ustr ''last_status_email_utc''"
  "\<not> list_ex is_surrogate (ustr ''last_available'')"
  "\<not> list_ex is_surrogate (ustr ''last_status_email_utc'')"
  by (simp_all add: ustr_def is_surrogate_def)

lemma json_loads_fails:
  assumes "\<And>n. scan_once (Suc (Suc (Suc n))) (skip_ws s) = Inl JSONDecodeError"
    and "s \<noteq> []"
  shows "json_loads s = Inl JSONDecodeError"
proof -
  from assms(2) have "2 \<le> 2 * length s"
    by (cases s) simp_all
  then obtain n where "2 * length s = 2 + n"
    using le_Suc_ex by blast
  then have "Suc (2 * length s) = Suc (Suc (Suc n))"
    by simp
  with assms(1) show ?thesis
    by (simp add: json_loads_def del: budget_simps)
qed

lemma truncated_json:
  "json_loads ([123, 34] @ ustr ''last_available'' @ [34] @ ustr '': tru'') = Inl JSONDecodeError"
  by (rule json_loads_fails)
     (simp_all add: skip_ws_def is_ws_def ustr_def match_number_def is_digit_def)

section \<open>Properties of a run\<close>

lemma send_email_to:
  assumes "environ E (ustr ''MAIL_TO'') = Some mail_to"
    and "send_email E w subj body = (None, w')"
  shows "\<exists>m. outbox w' = outbox w @ [m]
             \<and> msg_to m = py_join (ustr '', '') (recipients mail_to)"
  using assms
  by (auto simp: send_email_def Let_def split: option.splits sum.splits if_splits)

lemma send_email_envelope:
  assumes "environ E (ustr ''MAIL_TO'') = Some mail_to"
    and "send_email E w subj body = (None, w')"
  shows "\<exists>m. outbox w' = outbox w @ [m]
             \<and> msg_to m = py_join (ustr '', '') (recipients mail_to)
             \<and> (recipients mail_to \<noteq> [] \<and> list_all addr_spec (recipients mail_to)
                  \<longrightarrow> envelope m = Some (recipients mail_to))"
proof -
  obtain m where m: "outbox w' = outbox w @ [m]"
    "msg_to m = py_join (ustr '', '') (recipients mail_to)"
    using send_email_to [OF assms] by blast
  have "envelope m = Some (recipients mail_to)"
    if "recipients mail_to \<noteq> []" "list_all addr_spec (recipients mail_to)"
    using to_addrs_join [OF that] by (simp add: envelope_def m(2))
  with m show ?thesis by blast
qed

lemma send_email_cases:
  assumes "send_email E w subj body = (r, w')"
  shows "(r = None \<and> (\<exists>m. w' = w\<lparr>outbox := outbox w @ [m]\<rparr> \<and> msg_subject m = subj
                           \<and> msg_content m = body \<and> smtp_ok E m))
         \<or> (r \<noteq> None \<and> w' = w)"
  using assms
  by (auto simp: send_email_def Let_def split: option.splits sum.splits if_splits)

lemma save_state_cases:
  assumes "save_state w st = (r, w')"
  shows "(r = None \<and> w' = w\<lparr>state_file := Some (json_dumps st @ [10])\<rparr>)
         \<or> (r = Some UnicodeEncodeError \<and> w' = w\<lparr>state_file := Some []\<rparr>)"
  using assms by (auto simp: save_state_def Let_def split: if_splits)

lemma subjects_differ: "restock_subject \<noteq> status_subject"
  by (simp add: restock_subject_def status_subject_def ustr_def)

lemma main_dict:
  assumes "fetch_html E PRODUCT_URL = Inr html" and "load_state w = Inr (JDict d)"
  shows "main E w =
     (case (if detect_available (re_ci E) html \<and> dict_get d (ustr ''last_available'') \<noteq> JBool True
           then send_email E w restock_subject (restock_body E)
           else (None, w)) of
        (Some e, w1) \<Rightarrow> (Some e, w1)
      | (None, w1) \<Rightarrow>
          (case should_send_12h_status E (dict_get d (ustr ''last_status_email_utc'')) (now E) of
             Inl e \<Rightarrow> (Some e, w1)
           | Inr send \<Rightarrow>
               if send then
                 (case send_email E w1 status_subject (status_body E (detect_available (re_ci E) html)) of
                    (Some e, w2) \<Rightarrow> (Some e, w2)
                  | (None, w2) \<Rightarrow>
                      save_state w2
                        (JDict (dict_setitem
                                  (dict_setitem d (ustr ''last_status_email_utc'')
                                     (JStr (isoformat E (now E))))
                                  (ustr ''last_available'') (JBool (detect_available (re_ci E) html)))))
               else save_state w1
                      (JDict (dict_setitem d (ustr ''last_available'') (JBool (detect_available (re_ci E) html))))))"
  using assms by (simp add: main_def Let_def)

lemma dict_get_setitem:
  "dict_get (dict_setitem d k v) k' = (if k' = k then v else dict_get d k')"
  by (induction d) (auto simp: dict_get_def)

lemma map_of_setitem:
  "map_of (dict_setitem d k v) = (map_of d)(k \<mapsto> v)"
  by (induction d) (auto simp: fun_eq_iff)

lemma main_trace:
  assumes fetch: "fetch_html E PRODUCT_URL = Inr html"
    and load: "load_state w = Inr (JDict d)"
    and run: "main E w = (r, w')"
  shows "\<exists>ms1 ms2.
      outbox w' = outbox w @ ms1 @ ms2
    \<and> (if detect_available (re_ci E) html
           \<and> dict_get d (ustr ''last_available'') \<noteq> JBool True
           \<and> fst (send_email E w restock_subject (restock_body E)) = None
        then \<exists>m. ms1 = [m] \<and> msg_subject m = restock_subject
        else ms1 = [])
    \<and> (ms2 = [] \<or> (\<exists>m. ms2 = [m] \<and> msg_subject m = status_subject))
    \<and> (ms2 \<noteq> [] \<longrightarrow>
          should_send_12h_status E (dict_get d (ustr ''last_status_email_utc'')) (now E) = Inr True)
    \<and> (r = None \<longrightarrow>
          (\<exists>send. should_send_12h_status E (dict_get d (ustr ''last_status_email_utc'')) (now E) = Inr send
             \<and> (ms2 \<noteq> []) = send)
          \<and> (detect_available (re_ci E) html
                \<and> dict_get d (ustr ''last_available'') \<noteq> JBool True \<longrightarrow> ms1 \<noteq> [])
          \<and> state_file w' =
              Some (json_dumps
                      (JDict (dict_setitem
                                (if ms2 \<noteq> []
                                 then dict_setitem d (ustr ''last_status_email_utc'')
                                        (JStr (isoformat E (now E)))
                                 else d)
                                (ustr ''last_available'')
                                (JBool (detect_available (re_ci E) html))))
                    @ [10]))
    \<and> (r \<noteq> None \<and> r \<noteq> Some UnicodeEncodeError \<longrightarrow> state_file w' = state_file w)"
proof -
  let ?A = "detect_available (re_ci E) html"
  let ?la = "dict_get d (ustr ''last_available'')"
  let ?ls = "dict_get d (ustr ''last_status_email_utc'')"
  let ?cond = "?A \<and> ?la \<noteq> JBool True"
  obtain r1 w1 where s1:
    "(if ?cond then send_email E w restock_subject (restock_body E) else (None, w)) = (r1, w1)"
    by (cases "if ?cond then send_email E w restock_subject (restock_body E) else (None, w)")
  have step1: "(r1 \<noteq> None \<and> w1 = w \<and> ?cond \<and> fst (send_email E w restock_subject (restock_body E)) \<noteq> None)
        \<or> (r1 = None \<and> w1 = w \<and> \<not> ?cond)
        \<or> (r1 = None \<and> ?cond \<and> fst (send_email E w restock_subject (restock_body E)) = None
            \<and> (\<exists>m. w1 = w\<lparr>outbox := outbox w @ [m]\<rparr> \<and> msg_subject m = restock_subject))"
  proof (cases ?cond)
    case False
    with s1 show ?thesis by auto
  next
    case True
    with s1 have se: "send_email E w restock_subject (restock_body E) = (r1, w1)"
      by simp
    from send_email_cases [OF se] True se show ?thesis by auto
  qed
  let ?goal = "\<lambda>ms1 ms2.
      outbox w' = outbox w @ ms1 @ ms2
    \<and> (if ?cond \<and> fst (send_email E w restock_subject (restock_body E)) = None
        then \<exists>m. ms1 = [m] \<and> msg_subject m = restock_subject
        else ms1 = [])
    \<and> (ms2 = [] \<or> (\<exists>m. ms2 = [m] \<and> msg_subject m = status_subject))
    \<and> (ms2 \<noteq> [] \<longrightarrow> should_send_12h_status E ?ls (now E) = Inr True)
    \<and> (r = None \<longrightarrow>
          (\<exists>send. should_send_12h_status E ?ls (now E) = Inr send \<and> (ms2 \<noteq> []) = send)
          \<and> (?cond \<longrightarrow> ms1 \<noteq> [])
          \<and> state_file w' =
              Some (json_dumps
                      (JDict (dict_setitem
                                (if ms2 \<noteq> []
                                 then dict_setitem d (ustr ''last_status_email_utc'')
                                        (JStr (isoformat E (now E)))
                                 else d)
                                (ustr ''last_available'') (JBool ?A)))
                    @ [10]))
    \<and> (r \<noteq> None \<and> r \<noteq> Some UnicodeEncodeError \<longrightarrow> state_file w' = state_file w)"
  have "\<exists>ms1 ms2. ?goal ms1 ms2"
  proof (cases r1)
    case (Some e)
    with s1 run have "r = Some e" "w' = w1"
      by (simp_all add: main_dict [OF fetch load])
    moreover from step1 Some have "w1 = w" "?cond"
      "fst (send_email E w restock_subject (restock_body E)) \<noteq> None"
      by auto
    ultimately have "?goal [] []"
      by simp
    then show ?thesis by blast
  next
    case None
    with step1 obtain ms1 where ms1:
      "outbox w1 = outbox w @ ms1" "state_file w1 = state_file w"
      "if ?cond \<and> fst (send_email E w restock_subject (restock_body E)) = None
       then \<exists>m. ms1 = [m] \<and> msg_subject m = restock_subject else ms1 = []"
      "?cond \<longrightarrow> ms1 \<noteq> []"
      by auto
    from None s1 run have rest:
      "(case should_send_12h_status E ?ls (now E) of
          Inl e \<Rightarrow> (Some e, w1)
        | Inr send \<Rightarrow>
            if send then
              (case send_email E w1 status_subject (status_body E ?A) of
                 (Some e, w2) \<Rightarrow> (Some e, w2)
               | (None, w2) \<Rightarrow>
                   save_state w2
                     (JDict (dict_setitem
                               (dict_setitem d (ustr ''last_status_email_utc'')
                                  (JStr (isoformat E (now E))))
                               (ustr ''last_available'') (JBool ?A))))
            else save_state w1 (JDict (dict_setitem d (ustr ''last_available'') (JBool ?A))))
       = (r, w')"
      by (simp add: main_dict [OF fetch load])
    show ?thesis
    proof (cases "should_send_12h_status E ?ls (now E)")
      case (Inl e)
      with rest have "r = Some e" "w' = w1" by simp_all
      with ms1 Inl have "?goal ms1 []" by simp
      then show ?thesis by blast
    next
      case (Inr send)
      show ?thesis
      proof (cases send)
        case False
        with Inr rest have
          "save_state w1 (JDict (dict_setitem d (ustr ''last_available'') (JBool ?A))) = (r, w')"
          by simp
        from save_state_cases [OF this] ms1 Inr False have "?goal ms1 []"
          by auto
        then show ?thesis by blast
      next
        case True
        obtain r2 w2 where s2: "send_email E w1 status_subject (status_body E ?A) = (r2, w2)"
          by (cases "send_email E w1 status_subject (status_body E ?A)")
        show ?thesis
        proof (cases r2)
          case (Some e)
          with s2 Inr True rest have "r = Some e" "w' = w2" by simp_all
          moreover from send_email_cases [OF s2] Some have "w2 = w1" by auto
          ultimately have "?goal ms1 []" using ms1 by simp
          then show ?thesis by blast
        next
          case None
          with send_email_cases [OF s2] obtain m where m:
            "w2 = w1\<lparr>outbox := outbox w1 @ [m]\<rparr>" "msg_subject m = status_subject"
            by auto
          from None s2 Inr True rest have
            "save_state w2
               (JDict (dict_setitem
                         (dict_setitem d (ustr ''last_status_email_utc'')
                            (JStr (isoformat E (now E))))
                         (ustr ''last_available'') (JBool ?A))) = (r, w')"
            by simp
          from save_state_cases [OF this] ms1 m Inr True have "?goal ms1 [m]"
            by auto
          then show ?thesis by blast
        qed
      qed
    qed
  qed
  then show ?thesis by (simp only: conj_assoc)
qed

lemma main_obs:
  assumes fetch: "fetch_html E PRODUCT_URL = Inr html"
    and load: "load_state w = Inr (JDict d)"
    and run: "main E w = (r, w')"
  shows "restock_sent w w' =
           (detect_available (re_ci E) html
            \<and> dict_get d (ustr ''last_available'') \<noteq> JBool True
            \<and> fst (send_email E w restock_subject (restock_body E)) = None)"
    and "length (filter (\<lambda>m. msg_subject m = restock_subject) (delivered w w'))
           = (if restock_sent w w' then 1 else 0)"
    and "length (filter (\<lambda>m. msg_subject m = status_subject) (delivered w w'))
           = (if status_sent w w' then 1 else 0)"
    and "status_sent w w' \<longrightarrow>
           should_send_12h_status E (dict_get d (ustr ''last_status_email_utc'')) (now E) = Inr True"
    and "r = None \<longrightarrow>
           should_send_12h_status E (dict_get d (ustr ''last_status_email_utc'')) (now E)
             = Inr (status_sent w w')
           \<and> restock_sent w w' =
               (detect_available (re_ci E) html
                \<and> dict_get d (ustr ''last_available'') \<noteq> JBool True)
           \<and> state_file w' =
               Some (json_dumps
                       (JDict (dict_setitem
                                 (if status_sent w w'
                                  then dict_setitem d (ustr ''last_status_email_utc'')
                                         (JStr (isoformat E (now E)))
                                  else d)
                                 (ustr ''last_available'')
                                 (JBool (detect_available (re_ci E) html))))
                     @ [10])"
    and "r \<noteq> None \<and> r \<noteq> Some UnicodeEncodeError \<longrightarrow> state_file w' = state_file w"
proof -
  from main_trace [OF fetch load run] obtain ms1 ms2 where t:
    "outbox w' = outbox w @ ms1 @ ms2"
    "if detect_available (re_ci E) html
          \<and> dict_get d (ustr ''last_available'') \<noteq> JBool True
          \<and> fst (send_email E w restock_subject (restock_body E)) = None
     then \<exists>m. ms1 = [m] \<and> msg_subject m = restock_subject
     else ms1 = []"
    "ms2 = [] \<or> (\<exists>m. ms2 = [m] \<and> msg_subject m = status_subject)"
    "ms2 \<noteq> [] \<longrightarrow>
       should_send_12h_status E (dict_get d (ustr ''last_status_email_utc'')) (now E) = Inr True"
    "r = None \<longrightarrow>
       (\<exists>send. should_send_12h_status E (dict_get d (ustr ''last_status_email_utc'')) (now E) = Inr send
          \<and> (ms2 \<noteq> []) = send)
       \<and> (detect_available (re_ci E) html
             \<and> dict_get d (ustr ''last_available'') \<noteq> JBool True \<longrightarrow> ms1 \<noteq> [])
       \<and> state_file w' =
           Some (json_dumps
                   (JDict (dict_setitem
                             (if ms2 \<noteq> []
                              then dict_setitem d (ustr ''last_status_email_utc'')
                                     (JStr (isoformat E (now E)))
                              else d)
                             (ustr ''last_available'')
                             (JBool (detect_available (re_ci E) html))))
                 @ [10])"
    "r \<noteq> None \<and> r \<noteq> Some UnicodeEncodeError \<longrightarrow> state_file w' = state_file w"
    by blast
  from t(1) have dl: "delivered w w' = ms1 @ ms2"
    by (simp add: delivered_def)
  note sd = subjects_differ subjects_differ [symmetric]
  have rs: "restock_sent w w' = (ms1 \<noteq> [])"
    using t(2,3) sd by (auto simp: restock_sent_def dl split: if_splits)
  have ss: "status_sent w w' = (ms2 \<noteq> [])"
    using t(2,3) sd by (auto simp: status_sent_def dl split: if_splits)
  show "restock_sent w w' =
           (detect_available (re_ci E) html
            \<and> dict_get d (ustr ''last_available'') \<noteq> JBool True
            \<and> fst (send_email E w restock_subject (restock_body E)) = None)"
    unfolding rs using t(2) by (auto split: if_splits)
  show "length (filter (\<lambda>m. msg_subject m = restock_subject) (delivered w w'))
           = (if restock_sent w w' then 1 else 0)"
    unfolding rs dl using t(2,3) sd by (auto split: if_splits)
  show "length (filter (\<lambda>m. msg_subject m = status_subject) (delivered w w'))
           = (if status_sent w w' then 1 else 0)"
    unfolding ss dl using t(2,3) sd by (auto split: if_splits)
  show "status_sent w w' \<longrightarrow>
           should_send_12h_status E (dict_get d (ustr ''last_status_email_utc'')) (now E) = Inr True"
    unfolding ss using t(4) .
  show "r = None \<longrightarrow>
           should_send_12h_status E (dict_get d (ustr ''last_status_email_utc'')) (now E)
             = Inr (status_sent w w')
           \<and> restock_sent w w' =
               (detect_available (re_ci E) html
                \<and> dict_get d (ustr ''last_available'') \<noteq> JBool True)
           \<and> state_file w' =
               Some (json_dumps
                       (JDict (dict_setitem
                                 (if status_sent w w'
                                  then dict_setitem d (ustr ''last_status_email_utc'')
                                         (JStr (isoformat E (now E)))
                                  else d)
                                 (ustr ''last_available'')
                                 (JBool (detect_available (re_ci E) html))))
                     @ [10])"
    unfolding rs ss using t(2,5) by (auto split: if_splits)
  show "r \<noteq> None \<and> r \<noteq> Some UnicodeEncodeError \<longrightarrow> state_file w' = state_file w"
    using t(6) .
qed

lemma main_not_dict:
  assumes "main E w = (r, w')"
    and "\<forall>html d. \<not> (fetch_html E PRODUCT_URL = Inr html \<and> load_state w = Inr (JDict d))"
  shows "w' = w"
  using assms
  by (auto simp: main_def Let_def split: sum.splits json.splits)

subsection \<open>Runs in the sample environment\<close>

lemma main_completes:
  assumes fetch: "fetch_html E PRODUCT_URL = Inr html"
    and load: "load_state w = Inr (JDict d)"
    and sends: "\<And>w1 subj body. fst (send_email E w1 subj body) = None"
    and due: "should_send_12h_status E (dict_get d (ustr ''last_status_email_utc'')) (now E) = Inr b"
    and clean: "\<not> list_ex is_surrogate
                  (json_dumps
                     (JDict (dict_setitem
                               (if b then dict_setitem d (ustr ''last_status_email_utc'')
                                           (JStr (isoformat E (now E)))
                                else d)
                               (ustr ''last_available'')
                               (JBool (detect_available (re_ci E) html))))
                   @ [10])"
  shows "fst (main E w) = None"
proof -
  have se: "\<exists>w2. send_email E w1 subj body = (None, w2)" for w1 subj body
    using sends [of w1 subj body] by (cases "send_email E w1 subj body") simp
  obtain w1 where w1:
    "(if detect_available (re_ci E) html \<and> dict_get d (ustr ''last_available'') \<noteq> JBool True
      then send_email E w restock_subject (restock_body E) else (None, w)) = (None, w1)"
    using se [of w restock_subject "restock_body E"]
    by (cases "detect_available (re_ci E) html
                \<and> dict_get d (ustr ''last_available'') \<noteq> JBool True") auto
  obtain w2 where w2:
    "send_email E w1 status_subject (status_body E (detect_available (re_ci E) html)) = (None, w2)"
    using se by blast
  show ?thesis
    unfolding main_dict [OF fetch load] w1 using due w2 clean
    by (cases b) (simp_all add: save_state_def Let_def)
qed

lemma sample_fetch: "fetch_html (sample_env html t ok) PRODUCT_URL = Inr html"
  by (simp add: fetch_html_def sample_env_def)

lemma sample_send:
  "send_email (sample_env html t ok) w subj body
   = (if ok \<lparr>smtp_host = ustr ''smtp.example.org'', smtp_port = 587, smtp_user = ustr ''bot'',
             smtp_pass = ustr ''secret'', msg_subject = subj, msg_from = ustr ''bot@example.org'',
             msg_to = ustr ''a@example.org, b@example.org'', msg_content = body\<rparr>
      then (None, w\<lparr>outbox := outbox w @
              [\<lparr>smtp_host = ustr ''smtp.example.org'', smtp_port = 587, smtp_user = ustr ''bot'',
                smtp_pass = ustr ''secret'', msg_subject = subj,
                msg_from = ustr ''bot@example.org'',
                msg_to = ustr ''a@example.org, b@example.org'', msg_content = body\<rparr>]\<rparr>)
      else (Some DeliveryError, w))"
  by (simp add: send_email_def sample_env_def sample_environ_def sample_int_def ustr_def
      recipients_def py_strip_def py_isspace_def is_digit_def digits_value_def)

lemma sample_send_to:
  "send_email (sample_env_to mail_to) w subj body
   = (None, w\<lparr>outbox := outbox w @
              [\<lparr>smtp_host = ustr ''smtp.example.org'', smtp_port = 587, smtp_user = ustr ''bot'',
                smtp_pass = ustr ''secret'', msg_subject = subj,
                msg_from = ustr ''bot@example.org'',
                msg_to = py_join (ustr '', '') (recipients mail_to), msg_content = body\<rparr>]\<rparr>)"
  by (simp add: send_email_def sample_env_to_def sample_env_def sample_environ_def
      sample_int_def ustr_def is_digit_def digits_value_def)

lemma addr_spec_a: "addr_spec (ustr ''a@example.org'')"
  by (simp add: addr_spec_def dot_atom_def is_atext_def is_alnum_def ustr_def)

lemma addr_spec_b: "addr_spec (ustr ''b@example.org'')"
  by (simp add: addr_spec_def dot_atom_def is_atext_def is_alnum_def ustr_def)

lemma load_first_run:
  "load_state \<lparr>state_file = None, outbox = []\<rparr>
   = Inr (JDict [(ustr ''last_available'', JNull), (ustr ''last_status_email_utc'', JNull)])"
  by (simp add: load_state_def default_state_def)

lemma load_saved:
  "load_state \<lparr>state_file = Some (json_dumps (stock_state a b) @ [10]), outbox = []\<rparr>
   = Inr (stock_state a b)"
proof -
  have "scalar (case a of None \<Rightarrow> JNull | Some x \<Rightarrow> JBool x)"
    and "scalar (case b of None \<Rightarrow> JNull | Some s \<Rightarrow> JStr s)"
    by (simp_all add: scalar_def split: option.splits)
  from loads_dumps_two [OF this state_keys(1)] show ?thesis
    by (simp add: load_state_def stock_state_def)
qed

text \<open>A page that says the product is in stock.\<close>

lemma in_stock_page:
  "detect_available latin1_ci (ustr ''P'' @ [0xE5] @ ustr '' lager '' @ [0x2705]) = True"
  by (simp add: detect_available_def OUT_OF_STOCK_PATTERNS_def IN_STOCK_HINTS_def ustr_def
      latin1_ci_def latin1_lower_def)

lemma sample_completes:
  assumes load: "load_state w = Inr (JDict [(ustr ''last_available'', v1),
                                            (ustr ''last_status_email_utc'', v2)])"
    and due: "should_send_12h_status (sample_env html t (\<lambda>m. True)) v2 t = Inr b"
    and old: "\<not> list_ex is_surrogate (encode 1 v2)"
    and new: "\<not> list_ex is_surrogate (sample_isoformat t)"
  shows "fst (main (sample_env html t (\<lambda>m. True)) w) = None"
proof (rule main_completes [OF sample_fetch load, where b = b])
  let ?E = "sample_env html t (\<lambda>m. True)"
  let ?d = "[(ustr ''last_available'', v1), (ustr ''last_status_email_utc'', v2)]"
  show "fst (send_email ?E w1 subj body) = None" for w1 subj body
    by (simp add: sample_send)
  have now: "now ?E = t" and iso: "isoformat ?E t = sample_isoformat t"
    by (simp_all add: sample_env_def)
  show "should_send_12h_status ?E (dict_get ?d (ustr ''last_status_email_utc'')) (now ?E) = Inr b"
    using due state_keys(1) by (simp add: dict_get_def now)
  have d: "dict_setitem
             (if b then dict_setitem ?d (ustr ''last_status_email_utc'') (JStr (isoformat ?E (now ?E)))
              else ?d)
             (ustr ''last_available'') (JBool a)
           = [(ustr ''last_available'', JBool a),
              (ustr ''last_status_email_utc'', if b then JStr (sample_isoformat t) else v2)]" for a
    using state_keys(1) by (simp add: now iso)
  have "\<not> list_ex is_surrogate (encode 1 (if b then JStr (sample_isoformat t) else v2))"
    using old new by (simp add: list_ex_basestring)
  then have "\<not> list_ex is_surrogate
            (json_dumps (JDict [(ustr ''last_available'', JBool a),
                                (ustr ''last_status_email_utc'',
                                 if b then JStr (sample_isoformat t) else v2)]) @ [10])" for a
    by (intro no_surrogate_two [OF state_keys(2,3)]) (simp_all add: ustr_def is_surrogate_def)
  then show "\<not> list_ex is_surrogate
                (json_dumps
                   (JDict (dict_setitem
                             (if b then dict_setitem ?d (ustr ''last_status_email_utc'')
                                         (JStr (isoformat ?E (now ?E)))
                              else ?d)
                             (ustr ''last_available'')
                             (JBool (detect_available (re_ci ?E) html))))
                 @ [10])"
    by (simp only: d not_False_eq_True)
qed

lemma sample_clock:
  "\<not> list_ex is_surrogate (sample_isoformat 43200000000)"
  "\<not> list_ex is_surrogate (sample_isoformat 43140000000)"
  by (simp_all add: sample_isoformat_def two_digits_def ustr_def is_surrogate_def)

lemma sample_ci: "re_ci (sample_env html t ok) = latin1_ci"
  by (simp add: sample_env_def)

section \<open>The claims\<close>

text \<open>
  Claim C1, as the code has it.  When the state file exists and its text is not JSON,
  \<open>load_state\<close> raises \<open>JSONDecodeError\<close>, and a run that has fetched the page ends
  with that exception in the world it started in: no message is sent and the state file
  is not written.  The default state, with both fields unset, is what \<open>load_state\<close>
  returns when the file does not exist.
\<close>

theorem unparseable_state_aborts:
  assumes "state_file w = Some content" and "json_loads content = Inl JSONDecodeError"
  shows "load_state w = Inl JSONDecodeError
       \<and> (fetch_html E PRODUCT_URL = Inr html \<longrightarrow> main E w = (Some JSONDecodeError, w))
       \<and> load_state (w\<lparr>state_file := None\<rparr>) = Inr default_state"
  using assms by (simp add: load_state_def main_def Let_def)

theorem unparseable_state_aborts_witness:
  "load_state \<lparr>state_file = Some ([123, 34] @ ustr ''last_available'' @ [34] @ ustr '': tru''),
                outbox = []\<rparr> = Inl JSONDecodeError
   \<and> main (sample_env [] 0 (\<lambda>m. True))
        \<lparr>state_file = Some ([123, 34] @ ustr ''last_available'' @ [34] @ ustr '': tru''),
         outbox = []\<rparr>
     = (Some JSONDecodeError,
        \<lparr>state_file = Some ([123, 34] @ ustr ''last_available'' @ [34] @ ustr '': tru''),
         outbox = []\<rparr>)"
proof -
  let ?w = "\<lparr>state_file = Some ([123, 34] @ ustr ''last_available'' @ [34] @ ustr '': tru''),
             outbox = []\<rparr>"
  have f: "state_file ?w = Some ([123, 34] @ ustr ''last_available'' @ [34] @ ustr '': tru'')"
    by simp
  from unparseable_state_aborts [OF f truncated_json, of "sample_env [] 0 (\<lambda>m. True)" "[]"]
  show ?thesis
    using sample_fetch [of "[]" 0 "\<lambda>m. True"] by blast
qed

text \<open>
  The claim as the specification states it, that an unparseable state file is loaded as
  the default state and the run goes on, fails for the file with the text \<open>not json\<close>.
\<close>

theorem unparseable_state_counterexample:
  "state_file \<lparr>state_file = Some (ustr ''not json''), outbox = []\<rparr> = Some (ustr ''not json'')
   \<and> json_loads (ustr ''not json'') = Inl JSONDecodeError
   \<and> load_state \<lparr>state_file = Some (ustr ''not json''), outbox = []\<rparr> = Inl JSONDecodeError
   \<and> load_state \<lparr>state_file = Some (ustr ''not json''), outbox = []\<rparr> \<noteq> Inr default_state
   \<and> main (sample_env [] 0 (\<lambda>m. True)) \<lparr>state_file = Some (ustr ''not json''), outbox = []\<rparr>
       = (Some JSONDecodeError, \<lparr>state_file = Some (ustr ''not json''), outbox = []\<rparr>)"
proof -
  have j: "json_loads (ustr ''not json'') = Inl JSONDecodeError"
    by (rule json_loads_fails)
       (simp_all add: skip_ws_def is_ws_def ustr_def match_number_def is_digit_def)
  then have l: "load_state \<lparr>state_file = Some (ustr ''not json''), outbox = []\<rparr>
                = Inl JSONDecodeError"
    by (simp add: load_state_def)
  then have "main (sample_env [] 0 (\<lambda>m. True)) \<lparr>state_file = Some (ustr ''not json''), outbox = []\<rparr>
       = (Some JSONDecodeError, \<lparr>state_file = Some (ustr ''not json''), outbox = []\<rparr>)"
    by (simp add: main_def sample_fetch Let_def)
  with j l show ?thesis by simp
qed

text \<open>
  Claim C2.  A page text that contains at least one out-of-stock pattern, case ignored,
  is classified as not available, whatever else it contains; in particular the
  classification is False when an in-stock hint is present as well.
\<close>

theorem out_of_stock_overrides:
  "(\<exists>pat \<in> set OUT_OF_STOCK_PATTERNS. contains_ci ci pat html)
   \<Longrightarrow> detect_available ci html = False"
  by (simp add: detect_available_def any_pattern_iff)

theorem out_of_stock_overrides_witness:
  "(\<exists>pat \<in> set OUT_OF_STOCK_PATTERNS.
      contains_ci latin1_ci pat (ustr ''UDSOLGT ... l'' @ [0xE6] @ ustr ''g i kurv''))
   \<and> (\<exists>pat \<in> set IN_STOCK_HINTS.
      contains_ci latin1_ci pat (ustr ''UDSOLGT ... l'' @ [0xE6] @ ustr ''g i kurv''))
   \<and> detect_available latin1_ci (ustr ''UDSOLGT ... l'' @ [0xE6] @ ustr ''g i kurv'') = False"
proof -
  let ?html = "ustr ''UDSOLGT ... l'' @ [0xE6] @ ustr ''g i kurv''"
  have out: "\<exists>pat \<in> set OUT_OF_STOCK_PATTERNS. contains_ci latin1_ci pat ?html"
    unfolding any_pattern_iff [symmetric]
    by (simp add: OUT_OF_STOCK_PATTERNS_def ustr_def latin1_ci_def latin1_lower_def)
  have hint: "\<exists>pat \<in> set IN_STOCK_HINTS. contains_ci latin1_ci pat ?html"
    unfolding any_pattern_iff [symmetric]
    by (simp add: IN_STOCK_HINTS_def ustr_def latin1_ci_def latin1_lower_def)
  from out hint out_of_stock_overrides [OF out] show ?thesis
    by blast
qed

text \<open>
  Claim C3.  In a run that has fetched the page and loaded a state, the restock alert is
  delivered exactly when the page is classified as available, the persisted
  \<open>last_available\<close> is not \<open>True\<close> and the send goes through, and then it is
  delivered once.  So in a run that ends without an exception the alert is sent if and
  only if the classification is true and \<open>last_available\<close> is not \<open>True\<close>: it is sent
  on a first run, where \<open>last_available\<close> is unset, and it is not sent when
  \<open>last_available\<close> is already \<open>True\<close>.
\<close>

theorem restock_alert_iff:
  assumes "fetch_html E PRODUCT_URL = Inr html"
    and "load_state w = Inr (JDict d)"
    and "main E w = (r, w')"
  shows "restock_sent w w' =
           (detect_available (re_ci E) html
            \<and> dict_get d (ustr ''last_available'') \<noteq> JBool True
            \<and> fst (send_email E w restock_subject (restock_body E)) = None)
       \<and> length (filter (\<lambda>m. msg_subject m = restock_subject) (delivered w w'))
           = (if restock_sent w w' then 1 else 0)
       \<and> (r = None \<longrightarrow>
            restock_sent w w' =
              (detect_available (re_ci E) html
               \<and> dict_get d (ustr ''last_available'') \<noteq> JBool True))
       \<and> (r = None \<and> detect_available (re_ci E) html
             \<and> dict_get d (ustr ''last_available'') = JNull \<longrightarrow> restock_sent w w')
       \<and> (dict_get d (ustr ''last_available'') = JBool True \<longrightarrow> \<not> restock_sent w w')"
  using main_obs(1) [OF assms] main_obs(2) [OF assms] main_obs(5) [OF assms]
  by auto

theorem restock_alert_iff_witness:
  "restock_sent \<lparr>state_file = None, outbox = []\<rparr>
     (snd (main (sample_env (ustr ''P'' @ [0xE5] @ ustr '' lager '' @ [0x2705]) 43200000000
                   (\<lambda>m. True))
             \<lparr>state_file = None, outbox = []\<rparr>))
   \<and> \<not> restock_sent
         \<lparr>state_file = Some (json_dumps (stock_state (Some True) None) @ [10]), outbox = []\<rparr>
         (snd (main (sample_env (ustr ''P'' @ [0xE5] @ ustr '' lager '' @ [0x2705]) 43200000000
                       (\<lambda>m. True))
                 \<lparr>state_file = Some (json_dumps (stock_state (Some True) None) @ [10]),
                  outbox = []\<rparr>))"
proof -
  let ?page = "ustr ''P'' @ [0xE5] @ ustr '' lager '' @ [0x2705]"
  let ?E = "sample_env ?page 43200000000 (\<lambda>m. True)"
  let ?w0 = "\<lparr>state_file = None, outbox = []\<rparr>"
  let ?w1 = "\<lparr>state_file = Some (json_dumps (stock_state (Some True) None) @ [10]), outbox = []\<rparr>"
  let ?d0 = "[(ustr ''last_available'', JNull), (ustr ''last_status_email_utc'', JNull)]"
  let ?d1 = "[(ustr ''last_available'', JBool True), (ustr ''last_status_email_utc'', JNull)]"
  have first: "fst (main ?E ?w0) = None"
    by (rule sample_completes [OF load_first_run, where b = True])
       (simp_all add: should_send_12h_status_def sample_clock, simp add: ustr_def is_surrogate_def)
  then have run0: "main ?E ?w0 = (None, snd (main ?E ?w0))"
    by (metis prod.collapse)
  have avail: "detect_available (re_ci ?E) ?page"
    using in_stock_page by (simp add: sample_ci)
  have unset: "dict_get ?d0 (ustr ''last_available'') = JNull"
    by (simp add: dict_get_def)
  have load1: "load_state ?w1 = Inr (JDict ?d1)"
    using load_saved [of "Some True" None] by (simp add: stock_state_def)
  have run1: "main ?E ?w1 = (fst (main ?E ?w1), snd (main ?E ?w1))"
    by simp
  have seen: "dict_get ?d1 (ustr ''last_available'') = JBool True"
    by (simp add: dict_get_def)
  from restock_alert_iff [OF sample_fetch load_first_run run0] avail unset
  have "restock_sent ?w0 (snd (main ?E ?w0))"
    by blast
  moreover from restock_alert_iff [OF sample_fetch load1 run1] seen
  have "\<not> restock_sent ?w1 (snd (main ?E ?w1))"
    by blast
  ultimately show ?thesis by blast
qed

text \<open>
  Claim C4.  The persisted time of the last status message is unset or a timestamp: a
  non-empty text that \<open>parse_iso\<close> reads as an aware datetime \<open>t\<close>.  Then the
  12-hour rule answers yes exactly when the time is unset or \<open>now - t\<close> is at least
  12 hours, and in a run that ends without an exception the status message is sent
  exactly then; the saved state holds \<open>now\<close> as the time of the last status message
  when the message was sent and the old value when it was not.  At exactly 12 hours the
  message is sent, at 11 hours 59 minutes it is not.
\<close>

theorem status_every_12h:
  assumes "fetch_html E PRODUCT_URL = Inr html"
    and "load_state w = Inr (JDict d)"
    and "main E w = (None, w')"
    and "last_sent = dict_get d (ustr ''last_status_email_utc'')"
    and "last_sent = JNull
         \<or> (\<exists>s. last_sent = JStr s \<and> s \<noteq> [] \<and> parse_iso E last_sent = Inr (Aware t))"
  shows "should_send_12h_status E last_sent (now E)
           = Inr (last_sent = JNull \<or> 12 * 3600 * 1000000 \<le> now E - t)
       \<and> status_sent w w' = (last_sent = JNull \<or> 12 * 3600 * 1000000 \<le> now E - t)
       \<and> (\<exists>d'. state_file w' = Some (json_dumps (JDict d') @ [10])
                \<and> dict_get d' (ustr ''last_status_email_utc'')
                    = (if status_sent w w' then JStr (isoformat E (now E)) else last_sent))
       \<and> (last_sent \<noteq> JNull \<and> now E - t = 12 * 3600 * 1000000 \<longrightarrow> status_sent w w')
       \<and> (last_sent \<noteq> JNull \<and> now E - t = (11 * 3600 + 59 * 60) * 1000000
            \<longrightarrow> \<not> status_sent w w')"
proof -
  let ?due = "last_sent = JNull \<or> 12 * 3600 * 1000000 \<le> now E - t"
  have rule: "should_send_12h_status E last_sent (now E) = Inr ?due"
    using assms(5) by (auto simp: should_send_12h_status_def)
  from main_obs(5) [OF assms(1-3)] assms(4) have
    sent: "should_send_12h_status E last_sent (now E) = Inr (status_sent w w')"
    and saved_file: "state_file w' =
               Some (json_dumps
                       (JDict (dict_setitem
                                 (if status_sent w w'
                                  then dict_setitem d (ustr ''last_status_email_utc'')
                                         (JStr (isoformat E (now E)))
                                  else d)
                                 (ustr ''last_available'')
                                 (JBool (detect_available (re_ci E) html))))
                     @ [10])"
    by simp_all
  from rule sent have iff: "status_sent w w' = ?due"
    by simp
  let ?d' = "dict_setitem
               (if status_sent w w'
                then dict_setitem d (ustr ''last_status_email_utc'') (JStr (isoformat E (now E)))
                else d)
               (ustr ''last_available'') (JBool (detect_available (re_ci E) html))"
  have "dict_get ?d' (ustr ''last_status_email_utc'')
          = (if status_sent w w' then JStr (isoformat E (now E)) else last_sent)"
    using state_keys(1) assms(4) by (simp add: dict_get_setitem)
  with saved_file have saved: "\<exists>d'. state_file w' = Some (json_dumps (JDict d') @ [10])
                \<and> dict_get d' (ustr ''last_status_email_utc'')
                    = (if status_sent w w' then JStr (isoformat E (now E)) else last_sent)"
    by blast
  from rule iff saved show ?thesis
    by simp
qed

theorem status_every_12h_witness:
  "status_sent
     \<lparr>state_file = Some (json_dumps (stock_state (Some False)
                                        (Some (ustr ''2024-01-01T00:00:00+00:00''))) @ [10]),
      outbox = []\<rparr>
     (snd (main (sample_env [] 43200000000 (\<lambda>m. True))
             \<lparr>state_file = Some (json_dumps (stock_state (Some False)
                                                 (Some (ustr ''2024-01-01T00:00:00+00:00''))) @ [10]),
              outbox = []\<rparr>))
   \<and> \<not> status_sent
     \<lparr>state_file = Some (json_dumps (stock_state (Some False)
                                        (Some (ustr ''2024-01-01T00:00:00+00:00''))) @ [10]),
      outbox = []\<rparr>
     (snd (main (sample_env [] 43140000000 (\<lambda>m. True))
             \<lparr>state_file = Some (json_dumps (stock_state (Some False)
                                                 (Some (ustr ''2024-01-01T00:00:00+00:00''))) @ [10]),
              outbox = []\<rparr>))"
proof -
  let ?ts = "ustr ''2024-01-01T00:00:00+00:00''"
  let ?w = "\<lparr>state_file = Some (json_dumps (stock_state (Some False) (Some ?ts)) @ [10]),
             outbox = []\<rparr>"
  let ?d = "[(ustr ''last_available'', JBool False), (ustr ''last_status_email_utc'', JStr ?ts)]"
  let ?E = "\<lambda>t. sample_env [] t (\<lambda>m. True)"
  have load: "load_state ?w = Inr (JDict ?d)"
    using load_saved [of "Some False" "Some ?ts"] by (simp add: stock_state_def)
  have parse: "parse_iso (?E t) (JStr ?ts) = Inr (Aware 0)" for t
    by (simp add: parse_iso_def sample_env_def py_replace_def sample_fromisoformat_def
        ustr_def is_digit_def)
  have last: "JStr ?ts = dict_get ?d (ustr ''last_status_email_utc'')"
    using state_keys(1) by (simp add: dict_get_def)
  have wf: "JStr ?ts = JNull
            \<or> (\<exists>s. JStr ?ts = JStr s \<and> s \<noteq> [] \<and> parse_iso (?E t) (JStr ?ts) = Inr (Aware 0))" for t
    using parse by (simp add: ustr_def)
  have old: "\<not> list_ex is_surrogate (encode 1 (JStr ?ts))"
    by (simp add: list_ex_basestring) (simp add: ustr_def is_surrogate_def)
  have now: "now (?E t) = t" for t
    by (simp add: sample_env_def)
  have due: "should_send_12h_status (?E t) (JStr ?ts) t = Inr (43200000000 \<le> t)" for t
    using parse [of t] by (simp add: should_send_12h_status_def) (simp add: ustr_def)
  have "fst (main (?E 43200000000) ?w) = None"
    by (rule sample_completes [OF load due old sample_clock(1)])
  then have run12: "main (?E 43200000000) ?w = (None, snd (main (?E 43200000000) ?w))"
    by (metis prod.collapse)
  have "fst (main (?E 43140000000) ?w) = None"
    by (rule sample_completes [OF load due old sample_clock(2)])
  then have run1159: "main (?E 43140000000) ?w = (None, snd (main (?E 43140000000) ?w))"
    by (metis prod.collapse)
  from status_every_12h [OF sample_fetch load run12 last wf]
  have "status_sent ?w (snd (main (?E 43200000000) ?w))"
    by (simp add: now)
  moreover from status_every_12h [OF sample_fetch load run1159 last wf]
  have "\<not> status_sent ?w (snd (main (?E 43140000000) ?w))"
    by (simp add: now)
  ultimately show ?thesis by blast
qed

text \<open>
  Claim C5.  Saving a state and loading it again gives the state back, for every state
  record: the availability true, false or unset, and the time of the last status message
  a timestamp or unset.  A timestamp is a text that UTF-8 can encode, so it holds no
  surrogate code point.
\<close>

theorem save_load_round_trip:
  assumes "\<forall>s. last_status = Some s \<longrightarrow> \<not> list_ex is_surrogate s"
  shows "fst (save_state w (stock_state last_available last_status)) = None
       \<and> load_state (snd (save_state w (stock_state last_available last_status)))
           = Inr (stock_state last_available last_status)"
proof -
  let ?k1 = "ustr ''last_available''" and ?k2 = "ustr ''last_status_email_utc''"
  let ?v1 = "case last_available of None \<Rightarrow> JNull | Some b \<Rightarrow> JBool b"
  let ?v2 = "case last_status of None \<Rightarrow> JNull | Some s \<Rightarrow> JStr s"
  have st: "stock_state last_available last_status = JDict [(?k1, ?v1), (?k2, ?v2)]"
    by (simp add: stock_state_def)
  have s1: "scalar ?v1" and s2: "scalar ?v2"
    by (simp_all add: scalar_def split: option.splits)
  have n1: "\<not> list_ex is_surrogate (encode 1 ?v1)"
    by (rule list_ex_scalar [OF s1]) (simp split: option.splits)
  have n2: "\<not> list_ex is_surrogate (encode 1 ?v2)"
    by (rule list_ex_scalar [OF s2]) (use assms in \<open>simp split: option.splits\<close>)
  have clean: "\<not> list_ex is_surrogate (json_dumps (JDict [(?k1, ?v1), (?k2, ?v2)]) @ [10])"
    by (rule no_surrogate_two [OF state_keys(2) state_keys(3) n1 n2])
  have saved: "save_state w (JDict [(?k1, ?v1), (?k2, ?v2)])
        = (None, w\<lparr>state_file := Some (json_dumps (JDict [(?k1, ?v1), (?k2, ?v2)]) @ [10])\<rparr>)"
    using clean by (simp add: save_state_def Let_def)
  have "json_loads (json_dumps (JDict [(?k1, ?v1), (?k2, ?v2)]) @ [10])
        = Inr (JDict [(?k1, ?v1), (?k2, ?v2)])"
    by (rule loads_dumps_two [OF s1 s2 state_keys(1)])
  then show ?thesis
    unfolding st saved by (simp add: load_state_def)
qed

theorem save_load_round_trip_witness:
  "load_state (snd (save_state \<lparr>state_file = None, outbox = []\<rparr>
                      (stock_state (Some True) (Some (ustr ''2024-01-01T12:00:00+00:00'')))))
   = Inr (stock_state (Some True) (Some (ustr ''2024-01-01T12:00:00+00:00'')))"
proof -
  have "\<forall>s. Some (ustr ''2024-01-01T12:00:00+00:00'') = Some s \<longrightarrow> \<not> list_ex is_surrogate s"
    by (simp add: ustr_def is_surrogate_def)
  from save_load_round_trip [OF this] show ?thesis
    by blast
qed

text \<open>
  Claim C6.  A send that raises ends the run there.  When the restock alert raises, the
  run ends with that exception in the world it started in.  When the status message
  raises, the run ends with that exception in the world the restock step left, whose
  state file is the one the run started with.  And every run that ends with a
  \<open>DeliveryError\<close> leaves the state file as it was: nothing is saved.
\<close>

theorem delivery_error_aborts:
  "(fetch_html E PRODUCT_URL = Inr html \<and> load_state w = Inr (JDict d)
      \<and> detect_available (re_ci E) html \<and> dict_get d (ustr ''last_available'') \<noteq> JBool True
      \<and> send_email E w restock_subject (restock_body E) = (Some e, w1)
     \<longrightarrow> main E w = (Some e, w))
   \<and> (fetch_html E PRODUCT_URL = Inr html \<and> load_state w = Inr (JDict d)
      \<and> (if detect_available (re_ci E) html \<and> dict_get d (ustr ''last_available'') \<noteq> JBool True
          then send_email E w restock_subject (restock_body E) else (None, w)) = (None, w1)
      \<and> should_send_12h_status E (dict_get d (ustr ''last_status_email_utc'')) (now E) = Inr True
      \<and> send_email E w1 status_subject (status_body E (detect_available (re_ci E) html))
          = (Some e, w2)
     \<longrightarrow> main E w = (Some e, w1) \<and> state_file w1 = state_file w)
   \<and> (main E w = (Some DeliveryError, w') \<longrightarrow> state_file w' = state_file w)"
proof (intro conjI impI)
  assume a: "fetch_html E PRODUCT_URL = Inr html \<and> load_state w = Inr (JDict d)
      \<and> detect_available (re_ci E) html \<and> dict_get d (ustr ''last_available'') \<noteq> JBool True
      \<and> send_email E w restock_subject (restock_body E) = (Some e, w1)"
  then have "w1 = w"
    using send_email_cases [of E w restock_subject "restock_body E" "Some e" w1] by auto
  with a show "main E w = (Some e, w)"
    by (simp add: main_dict)
next
  assume a: "fetch_html E PRODUCT_URL = Inr html \<and> load_state w = Inr (JDict d)
      \<and> (if detect_available (re_ci E) html \<and> dict_get d (ustr ''last_available'') \<noteq> JBool True
          then send_email E w restock_subject (restock_body E) else (None, w)) = (None, w1)
      \<and> should_send_12h_status E (dict_get d (ustr ''last_status_email_utc'')) (now E) = Inr True
      \<and> send_email E w1 status_subject (status_body E (detect_available (re_ci E) html))
          = (Some e, w2)"
  then have "w2 = w1"
    using send_email_cases
      [of E w1 status_subject "status_body E (detect_available (re_ci E) html)" "Some e" w2]
    by auto
  with a show "main E w = (Some e, w1)"
    by (simp add: main_dict)
  from a have "w1 = w \<or> send_email E w restock_subject (restock_body E) = (None, w1)"
    by (auto split: if_splits)
  then show "state_file w1 = state_file w"
    using send_email_cases [of E w restock_subject "restock_body E" None w1] by auto
next
  assume run: "main E w = (Some DeliveryError, w')"
  show "state_file w' = state_file w"
  proof (cases "\<exists>html d. fetch_html E PRODUCT_URL = Inr html \<and> load_state w = Inr (JDict d)")
    case True
    then obtain html d where "fetch_html E PRODUCT_URL = Inr html" "load_state w = Inr (JDict d)"
      by blast
    from main_obs(6) [OF this run] show ?thesis by simp
  next
    case False
    with main_not_dict [OF run] show ?thesis by blast
  qed
qed

theorem delivery_error_aborts_witness:
  "main (sample_env (ustr ''P'' @ [0xE5] @ ustr '' lager '' @ [0x2705]) 43200000000 (\<lambda>m. False))
     \<lparr>state_file = Some (json_dumps (stock_state (Some False) None) @ [10]), outbox = []\<rparr>
   = (Some DeliveryError,
      \<lparr>state_file = Some (json_dumps (stock_state (Some False) None) @ [10]), outbox = []\<rparr>)
   \<and> fst (main (sample_env (ustr ''P'' @ [0xE5] @ ustr '' lager '' @ [0x2705]) 43200000000
                  (\<lambda>m. msg_subject m = restock_subject))
            \<lparr>state_file = Some (json_dumps (stock_state (Some False) None) @ [10]),
             outbox = []\<rparr>)
     = Some DeliveryError
   \<and> state_file
       (snd (main (sample_env (ustr ''P'' @ [0xE5] @ ustr '' lager '' @ [0x2705]) 43200000000
                     (\<lambda>m. msg_subject m = restock_subject))
               \<lparr>state_file = Some (json_dumps (stock_state (Some False) None) @ [10]),
                outbox = []\<rparr>))
     = Some (json_dumps (stock_state (Some False) None) @ [10])
   \<and> length (outbox
       (snd (main (sample_env (ustr ''P'' @ [0xE5] @ ustr '' lager '' @ [0x2705]) 43200000000
                     (\<lambda>m. msg_subject m = restock_subject))
               \<lparr>state_file = Some (json_dumps (stock_state (Some False) None) @ [10]),
                outbox = []\<rparr>))) = 1"
proof -
  let ?page = "ustr ''P'' @ [0xE5] @ ustr '' lager '' @ [0x2705]"
  let ?Ea = "sample_env ?page 43200000000 (\<lambda>m. False)"
  let ?Eb = "sample_env ?page 43200000000 (\<lambda>m. msg_subject m = restock_subject)"
  let ?w = "\<lparr>state_file = Some (json_dumps (stock_state (Some False) None) @ [10]), outbox = []\<rparr>"
  let ?d = "[(ustr ''last_available'', JBool False), (ustr ''last_status_email_utc'', JNull)]"
  have load: "load_state ?w = Inr (JDict ?d)"
    using load_saved [of "Some False" None] by (simp add: stock_state_def)
  have avail: "detect_available (re_ci (sample_env ?page t ok)) ?page" for t ok
    using in_stock_page by (simp add: sample_ci)
  have la: "dict_get ?d (ustr ''last_available'') \<noteq> JBool True"
    by (simp add: dict_get_def)
  have ls: "should_send_12h_status E (dict_get ?d (ustr ''last_status_email_utc'')) t = Inr True"
    for E t
    using state_keys(1) by (simp add: dict_get_def should_send_12h_status_def)
  have fail_a: "send_email ?Ea ?w restock_subject (restock_body ?Ea) = (Some DeliveryError, ?w)"
    by (simp add: sample_send)
  from delivery_error_aborts
         [where E = ?Ea and html = ?page and w = ?w and d = ?d and e = DeliveryError and ?w1.0 = ?w]
       load avail la fail_a
  have a: "main ?Ea ?w = (Some DeliveryError, ?w)"
    by (simp add: sample_fetch)
  obtain w1 where ok_b: "send_email ?Eb ?w restock_subject (restock_body ?Eb) = (None, w1)"
    and w1: "state_file w1 = state_file ?w" "length (outbox w1) = 1"
    by (simp add: sample_send)
  have fail_b: "send_email ?Eb w1 status_subject (status_body ?Eb (detect_available (re_ci ?Eb) ?page))
                = (Some DeliveryError, w1)"
    using subjects_differ by (simp add: sample_send)
  from delivery_error_aborts
         [where E = ?Eb and html = ?page and w = ?w and d = ?d and e = DeliveryError
            and ?w1.0 = w1 and ?w2.0 = w1]
       load avail la ok_b ls fail_b
  have "main ?Eb ?w = (Some DeliveryError, w1)"
    by (simp add: sample_fetch)
  with w1 a show ?thesis by simp
qed

text \<open>
  Claim C7.  A page text that contains no out-of-stock pattern and no in-stock hint is
  classified as not available.
\<close>

theorem no_signal_not_available:
  "(\<forall>pat \<in> set OUT_OF_STOCK_PATTERNS. \<not> contains_ci ci pat html)
   \<Longrightarrow> (\<forall>pat \<in> set IN_STOCK_HINTS. \<not> contains_ci ci pat html)
   \<Longrightarrow> detect_available ci html = False"
  by (simp add: detect_available_def any_pattern_iff)

theorem no_signal_not_available_witness:
  "\<not> (\<exists>pat \<in> set OUT_OF_STOCK_PATTERNS.
      contains_ci latin1_ci pat (ustr ''Siden blev ikke fundet''))
   \<and> \<not> (\<exists>pat \<in> set IN_STOCK_HINTS.
      contains_ci latin1_ci pat (ustr ''Siden blev ikke fundet''))
   \<and> detect_available latin1_ci (ustr ''Siden blev ikke fundet'') = False"
proof -
  let ?html = "ustr ''Siden blev ikke fundet''"
  have "\<not> any_pattern latin1_ci OUT_OF_STOCK_PATTERNS ?html"
    by (simp add: OUT_OF_STOCK_PATTERNS_def ustr_def latin1_ci_def latin1_lower_def)
  then have out: "\<forall>pat \<in> set OUT_OF_STOCK_PATTERNS. \<not> contains_ci latin1_ci pat ?html"
    by (simp add: any_pattern_iff)
  have "\<not> any_pattern latin1_ci IN_STOCK_HINTS ?html"
    by (simp add: IN_STOCK_HINTS_def ustr_def latin1_ci_def latin1_lower_def)
  then have hint: "\<forall>pat \<in> set IN_STOCK_HINTS. \<not> contains_ci latin1_ci pat ?html"
    by (simp add: any_pattern_iff)
  from out hint no_signal_not_available [OF out hint] show ?thesis
    by blast
qed

text \<open>
  Claim C8.  A run that ends without an exception has written the state it loaded with
  two changes: \<open>last_available\<close> is this run's classification, whatever was sent, and
  \<open>last_status_email_utc\<close> is \<open>now\<close> if the status message was sent in this run and
  is what it was (also when it was absent) if not.  Every other key is as it was.
\<close>

theorem persisted_fields:
  assumes "fetch_html E PRODUCT_URL = Inr html"
    and "load_state w = Inr (JDict d)"
    and "main E w = (None, w')"
  shows "\<exists>d'. d' = dict_setitem
                    (if status_sent w w'
                     then dict_setitem d (ustr ''last_status_email_utc'')
                            (JStr (isoformat E (now E)))
                     else d)
                    (ustr ''last_available'') (JBool (detect_available (re_ci E) html))
           \<and> state_file w' = Some (json_dumps (JDict d') @ [10])
           \<and> dict_get d' (ustr ''last_available'') = JBool (detect_available (re_ci E) html)
           \<and> (status_sent w w' \<longrightarrow>
                 dict_get d' (ustr ''last_status_email_utc'') = JStr (isoformat E (now E)))
           \<and> (\<not> status_sent w w' \<longrightarrow>
                 map_of d' (ustr ''last_status_email_utc'')
                   = map_of d (ustr ''last_status_email_utc''))
           \<and> (\<forall>k. k \<noteq> ustr ''last_available'' \<and> k \<noteq> ustr ''last_status_email_utc''
                 \<longrightarrow> map_of d' k = map_of d k)"
  using main_obs(5) [OF assms] state_keys(1)
  by (simp add: dict_get_setitem map_of_setitem)

theorem persisted_fields_witness:
  "state_file
     (snd (main (sample_env (ustr ''P'' @ [0xE5] @ ustr '' lager '' @ [0x2705]) 43200000000
                   (\<lambda>m. True))
             \<lparr>state_file = None, outbox = []\<rparr>))
   = Some (json_dumps (stock_state (Some True) (Some (ustr ''2024-01-01T12:00:00+00:00''))) @ [10])"
proof -
  let ?page = "ustr ''P'' @ [0xE5] @ ustr '' lager '' @ [0x2705]"
  let ?E = "sample_env ?page 43200000000 (\<lambda>m. True)"
  let ?w0 = "\<lparr>state_file = None, outbox = []\<rparr>"
  let ?w' = "snd (main ?E ?w0)"
  let ?d0 = "[(ustr ''last_available'', JNull), (ustr ''last_status_email_utc'', JNull)]"
  have "fst (main ?E ?w0) = None"
    by (rule sample_completes [OF load_first_run, where b = True])
       (simp_all add: should_send_12h_status_def sample_clock, simp add: ustr_def is_surrogate_def)
  then have run: "main ?E ?w0 = (None, ?w')"
    by (metis prod.collapse)
  have avail: "detect_available (re_ci ?E) ?page"
    using in_stock_page by (simp add: sample_ci)
  have "should_send_12h_status ?E (dict_get ?d0 (ustr ''last_status_email_utc'')) (now ?E) = Inr True"
    by (simp add: should_send_12h_status_def dict_get_def)
  with main_obs(5) [OF sample_fetch load_first_run run] have sent: "status_sent ?w0 ?w'"
    by simp
  have iso: "isoformat ?E (now ?E) = ustr ''2024-01-01T12:00:00+00:00''"
    by (simp add: sample_env_def sample_isoformat_def two_digits_def ustr_def)
  from persisted_fields [OF sample_fetch load_first_run run]
  have "state_file ?w' =
          Some (json_dumps
                  (JDict (dict_setitem
                            (if status_sent ?w0 ?w'
                             then dict_setitem ?d0 (ustr ''last_status_email_utc'')
                                    (JStr (isoformat ?E (now ?E)))
                             else ?d0)
                            (ustr ''last_available'') (JBool (detect_available (re_ci ?E) ?page))))
                @ [10])"
    by blast
  then show ?thesis
    unfolding iso using sent avail state_keys(1) by (simp add: stock_state_def)
qed

text \<open>
  Claim C9.  The recipient list is built from the comma-separated \<open>MAIL_TO\<close> value:
  the entries are the pieces between the commas; the blank entries are dropped; the
  recipients are the remaining entries, in their order, each without the whitespace at
  its two ends.  The message that is sent holds exactly these recipients, joined by a
  comma and a space, as the value of its \<open>To\<close> header; and when there is at least one
  recipient and every recipient is a bare address, the envelope is exactly the
  recipients, in their order.
\<close>

theorem recipients_trimmed_in_order:
  "py_join [44] (py_split 44 mail_to) = mail_to
   \<and> (\<forall>e \<in> set (py_split 44 mail_to). 44 \<notin> set e)
   \<and> list_all2 trimmed (filter (\<lambda>e. \<not> blank e) (py_split 44 mail_to)) (recipients mail_to)
   \<and> (environ E (ustr ''MAIL_TO'') = Some mail_to \<and> send_email E w subj body = (None, w')
        \<longrightarrow> (\<exists>m. outbox w' = outbox w @ [m]
                  \<and> msg_to m = py_join (ustr '', '') (recipients mail_to)
                  \<and> (recipients mail_to \<noteq> [] \<and> list_all addr_spec (recipients mail_to)
                       \<longrightarrow> envelope m = Some (recipients mail_to))))"
proof -
  have "list_all2 trimmed (filter (\<lambda>e. \<not> blank e) (py_split 44 mail_to)) (recipients mail_to)"
    unfolding recipients_alt list_all2_map2
    by (simp add: list_all2_same trimmed_strip)
  then show ?thesis
    using py_join_split [of 44 mail_to] py_split_no_sep [of _ 44 mail_to] send_email_envelope
    by blast
qed

theorem recipients_trimmed_in_order_witness:
  "recipients (ustr '' a@example.org, ,b@example.org ,'')
     = [ustr ''a@example.org'', ustr ''b@example.org'']
   \<and> list_all2 trimmed [ustr '' a@example.org'', ustr ''b@example.org '']
        [ustr ''a@example.org'', ustr ''b@example.org'']
   \<and> msg_to (last (outbox (snd (send_email (sample_env [] 0 (\<lambda>m. True))
                                  \<lparr>state_file = None, outbox = []\<rparr> restock_subject []))))
     = ustr ''a@example.org, b@example.org''
   \<and> envelope (last (outbox (snd (send_email (sample_env [] 0 (\<lambda>m. True))
                                  \<lparr>state_file = None, outbox = []\<rparr> restock_subject []))))
     = Some [ustr ''a@example.org'', ustr ''b@example.org'']"
proof -
  let ?mt = "ustr '' a@example.org, ,b@example.org ,''"
  let ?E = "sample_env [] 0 (\<lambda>m. True)"
  let ?w = "\<lparr>state_file = None, outbox = []\<rparr>"
  let ?w' = "snd (send_email ?E ?w restock_subject [])"
  have r: "recipients ?mt = [ustr ''a@example.org'', ustr ''b@example.org'']"
    by (simp add: recipients_def ustr_def py_strip_def py_isspace_def)
  have f: "filter (\<lambda>e. \<not> blank e) (py_split 44 ?mt)
           = [ustr '' a@example.org'', ustr ''b@example.org '']"
    by (simp add: blank_def ustr_def py_isspace_def)
  have env: "environ ?E (ustr ''MAIL_TO'') = Some ?mt"
    by (simp add: sample_env_def sample_environ_def ustr_def)
  have se: "send_email ?E ?w restock_subject [] = (None, ?w')"
    by (simp add: sample_send)
  have j: "py_join (ustr '', '') [ustr ''a@example.org'', ustr ''b@example.org'']
           = ustr ''a@example.org, b@example.org''"
    by (simp add: ustr_def)
  have bare: "recipients ?mt \<noteq> [] \<and> list_all addr_spec (recipients ?mt)"
    unfolding r using addr_spec_a addr_spec_b by simp
  from recipients_trimmed_in_order [of ?mt ?E ?w restock_subject "[]" ?w'] env se bare
  have "list_all2 trimmed (filter (\<lambda>e. \<not> blank e) (py_split 44 ?mt)) (recipients ?mt)"
    and "\<exists>m. outbox ?w' = outbox ?w @ [m] \<and> msg_to m = py_join (ustr '', '') (recipients ?mt)
             \<and> envelope m = Some (recipients ?mt)"
    by blast+
  then have "list_all2 trimmed [ustr '' a@example.org'', ustr ''b@example.org '']
               [ustr ''a@example.org'', ustr ''b@example.org'']"
    and "msg_to (last (outbox ?w')) = ustr ''a@example.org, b@example.org''"
    and "envelope (last (outbox ?w')) = Some [ustr ''a@example.org'', ustr ''b@example.org'']"
    unfolding r f j by auto
  with r show ?thesis by blast
qed

text \<open>
  The envelope is not the list of recipients for every \<open>MAIL_TO\<close> value.  With the value
  \<open>"Doe, John" <john@example.org>\<close> the comma between the quotes makes two entries,
  \<open>"Doe\<close> and \<open>John" <john@example.org>\<close>; the send goes through, and the envelope of
  the message holds the one address \<open>john@example.org\<close>, which is neither of them.
\<close>

theorem envelope_counterexample:
  "environ (sample_env_to (34 # ustr ''Doe, John'' @ 34 # ustr '' <john@example.org>''))
       (ustr ''MAIL_TO'')
     = Some (34 # ustr ''Doe, John'' @ 34 # ustr '' <john@example.org>'')
   \<and> recipients (34 # ustr ''Doe, John'' @ 34 # ustr '' <john@example.org>'')
     = [34 # ustr ''Doe'', ustr ''John'' @ 34 # ustr '' <john@example.org>'']
   \<and> fst (send_email (sample_env_to (34 # ustr ''Doe, John'' @ 34 # ustr '' <john@example.org>''))
            \<lparr>state_file = None, outbox = []\<rparr> restock_subject []) = None
   \<and> map envelope (outbox (snd (send_email
          (sample_env_to (34 # ustr ''Doe, John'' @ 34 # ustr '' <john@example.org>''))
          \<lparr>state_file = None, outbox = []\<rparr> restock_subject [])))
     = [Some [ustr ''john@example.org'']]"
proof -
  let ?mt = "34 # ustr ''Doe, John'' @ 34 # ustr '' <john@example.org>''"
  have r: "recipients ?mt = [34 # ustr ''Doe'', ustr ''John'' @ 34 # ustr '' <john@example.org>'']"
    by (simp add: recipients_def ustr_def py_strip_def py_isspace_def)
  have e: "to_addrs (py_join (ustr '', '') (recipients ?mt)) = Some [ustr ''john@example.org'']"
    unfolding r
    by (simp add: to_addrs_def mailbox_def angle_addr_def addr_spec_def dot_atom_def
        is_atext_def is_alnum_def ustr_def)
  have env: "environ (sample_env_to ?mt) (ustr ''MAIL_TO'') = Some ?mt"
    by (simp add: sample_env_to_def sample_env_def)
  show ?thesis
    using r e env by (simp add: sample_send_to envelope_def)
qed

text \<open>
  Claim C10.  A persisted timestamp that ends in \<open>Z\<close> is read as the same value as
  the timestamp that ends in \<open>+00:00\<close> instead: \<open>parse_iso\<close> replaces the \<open>Z\<close> by
  \<open>+00:00\<close> before it calls \<open>fromisoformat\<close>, so both forms give the same datetime and
  the same answer of the 12-hour rule; when the \<open>Z\<close> at the end is the only one, what
  \<open>fromisoformat\<close> gets is the text with \<open>+00:00\<close> for the \<open>Z\<close>.
\<close>

theorem parse_iso_accepts_Z:
  "parse_iso E (JStr (s @ ustr ''Z'')) = parse_iso E (JStr (s @ ustr ''+00:00''))
   \<and> should_send_12h_status E (JStr (s @ ustr ''Z'')) t
       = should_send_12h_status E (JStr (s @ ustr ''+00:00'')) t
   \<and> (90 \<notin> set s \<longrightarrow>
        parse_iso E (JStr (s @ ustr ''Z'')) = fromisoformat E (s @ ustr ''+00:00''))"
proof -
  have eq: "parse_iso E (JStr (s @ ustr ''Z'')) = parse_iso E (JStr (s @ ustr ''+00:00''))"
    by (simp add: parse_iso_def py_replace_Z_suffix)
  have gate: "should_send_12h_status E (JStr (s @ ustr ''Z'')) t
       = should_send_12h_status E (JStr (s @ ustr ''+00:00'')) t"
    by (simp add: should_send_12h_status_def eq) (simp add: ustr_def)
  have plain: "parse_iso E (JStr (s @ ustr ''Z'')) = fromisoformat E (s @ ustr ''+00:00'')"
    if "90 \<notin> set s"
  proof -
    have "py_replace 90 (ustr ''+00:00'') (s @ ustr ''Z'') = s @ ustr ''+00:00''"
      using that by (simp add: py_replace_append py_replace_absent) (simp add: py_replace_def ustr_def)
    then show ?thesis by (simp add: parse_iso_def)
  qed
  from eq gate plain show ?thesis by blast
qed

theorem parse_iso_accepts_Z_witness:
  "parse_iso (sample_env [] 0 (\<lambda>m. True)) (JStr (ustr ''2024-01-01T00:01:00Z''))
     = Inr (Aware 60000000)
   \<and> parse_iso (sample_env [] 0 (\<lambda>m. True)) (JStr (ustr ''2024-01-01T00:01:00+00:00''))
     = Inr (Aware 60000000)"
proof -
  let ?E = "sample_env [] 0 (\<lambda>m. True)"
  let ?s = "ustr ''2024-01-01T00:01:00''"
  have z: "90 \<notin> set ?s"
    by (simp add: ustr_def)
  have v: "fromisoformat ?E (?s @ ustr ''+00:00'') = Inr (Aware 60000000)"
    by (simp add: sample_env_def sample_fromisoformat_def ustr_def is_digit_def)
  have a: "?s @ ustr ''Z'' = ustr ''2024-01-01T00:01:00Z''"
    and b: "?s @ ustr ''+00:00'' = ustr ''2024-01-01T00:01:00+00:00''"
    by (simp_all add: ustr_def)
  from parse_iso_accepts_Z [of ?E ?s 0] z v
  have "parse_iso ?E (JStr (?s @ ustr ''Z'')) = Inr (Aware 60000000)"
    and "parse_iso ?E (JStr (?s @ ustr ''+00:00'')) = Inr (Aware 60000000)"
    by metis+
  then show ?thesis
    unfolding a b by (rule conjI)
qed

end
